theory Spec2Isabelle
  imports Main
begin

section \<open>Strings and values as the program uses them\<close>

text \<open>
  The program is TypeScript run by Node. A \<^verbatim>\<open>string\<close> is modelled as a \<^typ>\<open>string\<close>, one
  \<^typ>\<open>char\<close> for each code unit below 256; a field of a config of type
  \<^verbatim>\<open>string | undefined\<close> as a \<^typ>\<open>string option\<close>, \<^term>\<open>None\<close> for \<^verbatim>\<open>undefined\<close>. The program tests
  such values by their truthiness (\<^verbatim>\<open>if (value)\<close>, \<^verbatim>\<open>a || b\<close>, \<^verbatim>\<open>c ? x : y\<close>): \<^verbatim>\<open>undefined\<close> and the
  empty string are falsy, every other string is truthy.
\<close>

definition truthy :: "string option \<Rightarrow> bool" where
  "truthy v = (case v of None \<Rightarrow> False | Some s \<Rightarrow> s \<noteq> [])"

text \<open>
  A field of type \<^verbatim>\<open>string | undefined\<close> that is tested by its truthiness and then used:
  the string, when there is one and it is not empty.
\<close>

definition nonempty :: "string option \<Rightarrow> string option" where
  "nonempty v = (if truthy v then v else None)"

text \<open>The class \<^verbatim>\<open>\w\<close> of a regular expression without the Unicode flag.\<close>

definition word_char :: "char \<Rightarrow> bool" where
  "word_char c \<longleftrightarrow>
     c \<in> set ''abcdefghijklmnopqrstuvwxyzABCDEFGHIJKLMNOPQRSTUVWXYZ0123456789_''"

text \<open>
  The class \<^verbatim>\<open>\s\<close>, which is also what \<^verbatim>\<open>trim()\<close> removes: tab, line feed, vertical tab,
  form feed, carriage return, space and the no-break space.
\<close>

definition js_space :: "char \<Rightarrow> bool" where
  "js_space c \<longleftrightarrow>
     c \<in> set [CHR 0x09, CHR 0x0A, CHR 0x0B, CHR 0x0C, CHR 0x0D, CHR 0x20, CHR 0xA0]"

text \<open>The line terminators: \<^verbatim>\<open>.\<close> does not match them, \<^verbatim>\<open>^\<close> and \<^verbatim>\<open>$\<close> match beside them.\<close>

definition line_end :: "char \<Rightarrow> bool" where
  "line_end c \<longleftrightarrow> c = CHR 0x0A \<or> c = CHR 0x0D"

definition trim :: "string \<Rightarrow> string" where
  "trim s = rev (dropWhile js_space (rev (dropWhile js_space s)))"

text \<open>\<^verbatim>\<open>message.startsWith(prefix)\<close>.\<close>

fun startsWith :: "string \<Rightarrow> string \<Rightarrow> bool" where
  "startsWith s [] = True"
| "startsWith [] (p # ps) = False"
| "startsWith (c # cs) (p # ps) = (c = p \<and> startsWith cs ps)"

text \<open>\<^verbatim>\<open>lines.join("\n")\<close>.\<close>

fun join_lines :: "string list \<Rightarrow> string" where
  "join_lines [] = []"
| "join_lines [l] = l"
| "join_lines (l # m # ls) = l @ CHR 0x0A # join_lines (m # ls)"

text \<open>
  The program uses two objects as dictionaries that it reads with a key taken from a
  config: the Values context (\<^verbatim>\<open>values[key]\<close>) and the variables of an env file
  (\<^verbatim>\<open>envConfig[key]\<close>). Both are ordinary objects, so a read of a name that the object does
  not own yields what every object inherits from \<^verbatim>\<open>Object.prototype\<close> under that name:
  a built-in function for eleven names, and \<^verbatim>\<open>Object.prototype\<close> itself for \<^verbatim>\<open>__proto__\<close>.
  The TypeScript types of the program call the result of such a read a string; at run
  time it is a string or one of those inherited members, and the member goes where the
  string would have gone. A value of the program is therefore a text or a member, named
  by the name under which it is inherited.
\<close>

datatype jsval = Text string | Member string

definition inherited_names :: "string list" where
  "inherited_names =
     [''constructor'', ''__defineGetter__'', ''__defineSetter__'', ''hasOwnProperty'',
      ''__lookupGetter__'', ''__lookupSetter__'', ''isPrototypeOf'', ''propertyIsEnumerable'',
      ''toString'', ''valueOf'', ''__proto__'', ''toLocaleString'']"

text \<open>The read of a name that the object does not own.\<close>

definition inherited :: "string \<Rightarrow> jsval option" where
  "inherited k = (if k \<in> set inherited_names then Some (Member k) else None)"

text \<open>
  The truthiness of a value that may be \<^verbatim>\<open>undefined\<close>: a function and an object are
  truthy. \<^term>\<open>present\<close> is the value when it is truthy; \<^term>\<open>or_value\<close> is \<^verbatim>\<open>a || b\<close>, and
  \<^term>\<open>or_empty\<close> is \<^verbatim>\<open>a || ""\<close>.
\<close>

definition truthy_value :: "jsval option \<Rightarrow> bool" where
  "truthy_value v =
     (case v of None \<Rightarrow> False | Some (Text s) \<Rightarrow> s \<noteq> [] | Some (Member m) \<Rightarrow> True)"

definition present :: "jsval option \<Rightarrow> jsval option" where
  "present v = (if truthy_value v then v else None)"

definition or_value :: "jsval option \<Rightarrow> jsval option \<Rightarrow> jsval option" where
  "or_value a b = (if truthy_value a then a else b)"

definition or_empty :: "jsval option \<Rightarrow> jsval" where
  "or_empty a = (case present a of Some v \<Rightarrow> v | None \<Rightarrow> Text [])"

section \<open>The world outside the program\<close>

text \<open>What \<^verbatim>\<open>JSON.parse\<close> returns.\<close>

datatype json =
    JNull
  | JBool bool
  | JNum int
  | JStr string
  | JArr "json list"
  | JObj "(string \<times> json) list"

text \<open>
  The lines that the program prints. The text of a line is styled with \<^verbatim>\<open>chalk\<close> and
  \<^verbatim>\<open>boxen\<close>, whose output depends on the terminal; the model keeps what a line says and
  leaves its styled text to the environment.
\<close>

datatype load_error = Unreadable | Malformed string | NullConfig | MissingProjects

datatype line =
    Welcome
  | Intro string
  | PressCtrlC
  | StepTitle nat string
  | Description string
  | Instructions string
  | AdditionalHeader
  | Additional string
  | Blank
  | SkippingStep string
  | Details string
  | InfoBox string
  | SetIn string
  | SetFile string
  | SetPlain string
  | Skipped string
  | StepCompleted
  | SetupComplete
  | LoadingConfig string
  | LoadFailed load_error
  | ReadError string
  | ExportFailed string string
  | ExportError string

text \<open>
  What Node and the libraries provide. \<^term>\<open>json_parse\<close> is \<^verbatim>\<open>JSON.parse\<close>, with the message
  of the error when it throws. \<^term>\<open>path_join\<close> is \<^verbatim>\<open>path.join\<close>, and \<^term>\<open>path_relative\<close> is
  \<^verbatim>\<open>path.relative(process.cwd(), p)\<close>. \<^term>\<open>execSync\<close> gives the outcome of a shell command
  run in a working directory: its output, or the message of the error when the command
  fails. \<^term>\<open>styled\<close> is the text of a line as it is handed to the console.
  \<^term>\<open>member_text\<close> is the text that the engine gives for an inherited built-in function
  (in Node, \<^verbatim>\<open>function toString() { [native code] }\<close>), and \<^term>\<open>member_error\<close> the message
  of the \<^verbatim>\<open>TypeError\<close> that such a function throws when it is called on \<^verbatim>\<open>undefined\<close>.
\<close>

record node =
  json_parse :: "string \<Rightarrow> string + json"
  path_join :: "string list \<Rightarrow> string"
  path_relative :: "string \<Rightarrow> string"
  execSync :: "string \<Rightarrow> string \<Rightarrow> string + string"
  styled :: "line \<Rightarrow> string"
  member_text :: "string \<Rightarrow> string"
  member_error :: "string \<Rightarrow> string"

text \<open>
  The text of a value, where the program puts it into a string (\<^verbatim>\<open>`${k}=${v}`\<close>, the
  result of a replace callback): \<^verbatim>\<open>Object.prototype\<close> reads \<^verbatim>\<open>[object Object]\<close>.
\<close>

definition to_text :: "node \<Rightarrow> jsval \<Rightarrow> string" where
  "to_text n v =
     (case v of
        Text s \<Rightarrow> s
      | Member m \<Rightarrow> if m = ''__proto__'' then ''[object Object]'' else member_text n m)"

text \<open>
  What the program does to the world, in the order in which it does it: the lines it
  prints with \<^verbatim>\<open>console.log\<close> and \<^verbatim>\<open>console.error\<close>, its calls of \<^verbatim>\<open>fs.readFileSync\<close> (the
  path) and of \<^verbatim>\<open>fs.writeFileSync\<close> (the path and the content), the commands it runs (the
  command line and the working directory), the confirmation it asks of the operator, and
  the input prompts (the name of the variable, whether it is marked optional, and the
  default that is offered).
\<close>

datatype event =
    Log line
  | LogError line
  | Read string
  | Write string string
  | Exec string string
  | Confirm
  | Input string bool "jsval option"

text \<open>
  The state of the world: the text files by path as they are on the disk, the paths at
  which \<^verbatim>\<open>fs.readFileSync\<close> throws whatever is on the disk (the permission is denied, the
  path names a directory), the paths at which \<^verbatim>\<open>fs.writeFileSync\<close> throws (the directory
  is missing, the path names a directory, the permission is denied), the answers that
  the operator is going to give to the confirmations and to the input prompts (an
  operator who has no answer left interrupts the program), and the events so far. The
  answer to an input prompt is \<^verbatim>\<open>answer.value\<close> as the prompt library returns it: the text
  that the operator typed, or what the library makes of the default that was offered.
\<close>

record world =
  disk :: "string \<rightharpoonup> string"
  unreadable :: "string \<Rightarrow> bool"
  write_fails :: "string \<Rightarrow> bool"
  yes_no :: "bool list"
  typed :: "jsval list"
  trace :: "event list"

text \<open>
  What \<^verbatim>\<open>fs.readFileSync(path, "utf-8")\<close> returns: the text of the file, or \<^term>\<open>None\<close> when
  the read throws, because the file is absent or cannot be read.
\<close>

definition files :: "world \<Rightarrow> string \<rightharpoonup> string" where
  "files w filePath = (if unreadable w filePath then None else disk w filePath)"

text \<open>
  How a run ends when it does not reach its end: the process exits with status 1, the
  operator interrupts a prompt, or something is thrown that nothing in the walk catches,
  which is what a write of a file that fails is. What is thrown leaves
  \<^verbatim>\<open>setupEnvironment\<close> and reaches the handler of \<^verbatim>\<open>main\<close>, which reports it and exits.
\<close>

datatype failure = Exit1 | Interrupted | Thrown

datatype 'a outcome = Ok 'a world | Stop failure world

definition emit :: "event \<Rightarrow> world \<Rightarrow> world" where
  "emit e w = w\<lparr>trace := trace w @ [e]\<rparr>"

section \<open>Template Resolver\<close>

text \<open>
  Both renderings use \<^verbatim>\<open>s.replace(/\{\{(\w+)\}\}/g, (_, key) => ...)\<close>. The expression
  matches at a position exactly when the text there is \<^verbatim>\<open>{{\<close>, a non-empty run of word
  characters and \<^verbatim>\<open>}}\<close>; the run is the longest one, since the character that has to
  follow it is no word character. \<^term>\<open>match_placeholder\<close> is that match at the head of
  the text: the key and the text after the match.
\<close>

definition match_placeholder :: "string \<Rightarrow> (string \<times> string) option" where
  "match_placeholder s =
     (case s of
        a # b # t \<Rightarrow>
          if a = CHR ''{'' \<and> b = CHR ''{'' then
            (case dropWhile word_char t of
               c # d # rest \<Rightarrow>
                 if takeWhile word_char t \<noteq> [] \<and> c = CHR ''}'' \<and> d = CHR ''}''
                 then Some (takeWhile word_char t, rest)
                 else None
             | _ \<Rightarrow> None)
          else None
      | _ \<Rightarrow> None)"

text \<open>
  The global replace: the leftmost match is replaced by what the callback returns for
  its key, and the scan goes on after the match; where nothing matches, the character is
  kept and the scan moves one position on.
\<close>

function replace_placeholders :: "(string \<Rightarrow> string) \<Rightarrow> string \<Rightarrow> string" where
  "replace_placeholders f [] = []"
| "replace_placeholders f (c # cs) =
     (case match_placeholder (c # cs) of
        Some (key, rest) \<Rightarrow> f key @ replace_placeholders f rest
      | None \<Rightarrow> c # replace_placeholders f cs)"
  by pat_completeness auto
termination
proof (relation "measure (\<lambda>(f, s). length s)")
  have shorter: "length r < length s" if "match_placeholder s = Some (k, r)" for s k r
  proof -
    from that obtain t where s: "s = CHR ''{'' # CHR ''{'' # t"
      by (auto simp: match_placeholder_def split: list.splits if_splits)
    with that have "dropWhile word_char t = CHR ''}'' # CHR ''}'' # r"
      by (auto simp: match_placeholder_def split: list.splits if_splits)
    with length_dropWhile_le [of word_char t] have "length r < length t"
      by simp
    with s show ?thesis
      by simp
  qed
  show "wf (measure (\<lambda>(f :: string \<Rightarrow> string, s :: string). length s))"
    by simp
  show "((f, cs), (f, c # cs)) \<in> measure (\<lambda>(f, s). length s)"
    for f :: "string \<Rightarrow> string" and c :: char and cs :: string
    by simp
  show "((f, r), (f, c # cs)) \<in> measure (\<lambda>(f, s). length s)"
    if "match_placeholder (c # cs) = Some m" and "(k, r) = m"
    for f :: "string \<Rightarrow> string" and c :: char and cs k r :: string and m
    using shorter [of "c # cs" k r] that by simp
qed

text \<open>
  The Values context is the object literal \<^verbatim>\<open>{ convexUrl, convexSiteUrl }\<close>;
  \<^term>\<open>values_at\<close> is the read \<^verbatim>\<open>values[key]\<close>: one of the two properties that the object
  owns, or what it inherits under the key.
\<close>

record Values =
  convexUrl :: string
  convexSiteUrl :: string

definition values_at :: "Values \<Rightarrow> string \<Rightarrow> jsval option" where
  "values_at values key =
     (if key = ''convexUrl'' then Some (Text (convexUrl values))
      else if key = ''convexSiteUrl'' then Some (Text (convexSiteUrl values))
      else inherited key)"

text \<open>
  What a callback \<^verbatim>\<open>(_, key) => values[key] || fallback\<close> contributes to the replaced
  string: the text of the value that was read when it is truthy, the fallback otherwise.
\<close>

definition or_text :: "node \<Rightarrow> jsval option \<Rightarrow> string \<Rightarrow> string" where
  "or_text n v fallback = (case present v of Some x \<Rightarrow> to_text n x | None \<Rightarrow> fallback)"

text \<open>
  The rendering of an info string, with the callback
  \<^verbatim>\<open>(_, key) => values[key] || `[${key} not set]`\<close>.
\<close>

definition not_set :: "string \<Rightarrow> string" where
  "not_set key = ''['' @ key @ '' not set]''"

definition render_info :: "node \<Rightarrow> Values \<Rightarrow> string \<Rightarrow> string" where
  "render_info n values infoItem =
     replace_placeholders (\<lambda>key. or_text n (values_at values key) (not_set key)) infoItem"

text \<open>
  The rendering of a \<^verbatim>\<open>template\<close> default value, with the callback
  \<^verbatim>\<open>(_, key) => values[key] || ""\<close>.
\<close>

definition render_template :: "node \<Rightarrow> Values \<Rightarrow> string \<Rightarrow> string" where
  "render_template n values template =
     replace_placeholders (\<lambda>key. or_text n (values_at values key) []) template"

section \<open>Objects as dictionaries\<close>

text \<open>
  \<^verbatim>\<open>dotenv.parse\<close> returns an object whose properties are the variables of the file, and
  \<^verbatim>\<open>updateEnvFile\<close> lists them with \<^verbatim>\<open>Object.entries\<close>. The model keeps the properties that
  the object owns, in the order of that listing: the names that are array indices first,
  in ascending numeric order, then the other names in the order in which they were
  created. An array index is the canonical decimal form of an integer from 0 to
  4294967294.
\<close>

type_synonym obj = "(string \<times> jsval) list"

definition digit :: "char \<Rightarrow> bool" where
  "digit c \<longleftrightarrow> c \<in> set ''0123456789''"

text \<open>The numeric order of two digit strings of the same length.\<close>

fun digits_less :: "string \<Rightarrow> string \<Rightarrow> bool" where
  "digits_less (a # as) (b # bs) =
     (if a = b then digits_less as bs else (of_char a :: nat) < of_char b)"
| "digits_less as bs = False"

definition array_index :: "string \<Rightarrow> bool" where
  "array_index k \<longleftrightarrow>
     k \<noteq> [] \<and> list_all digit k \<and> (k = ''0'' \<or> take 1 k \<noteq> ''0'') \<and>
     (length k < 10 \<or> length k = 10 \<and> \<not> digits_less ''4294967294'' k)"

definition index_less :: "string \<Rightarrow> string \<Rightarrow> bool" where
  "index_less a b \<longleftrightarrow> length a < length b \<or> length a = length b \<and> digits_less a b"

fun insert_index :: "string \<Rightarrow> jsval \<Rightarrow> obj \<Rightarrow> obj" where
  "insert_index k v [] = [(k, v)]"
| "insert_index k v ((k', v') # kvs) =
     (if array_index k' \<and> index_less k' k
      then (k', v') # insert_index k v kvs
      else (k, v) # (k', v') # kvs)"

text \<open>
  The assignment \<^verbatim>\<open>obj[key] = value\<close>: a property that the object owns is updated in
  its place, and a new property is created for any other name but \<^verbatim>\<open>__proto__\<close>. An
  assignment to \<^verbatim>\<open>__proto__\<close> runs the setter that every object inherits: it creates no
  property, and the properties that the object owns stay as they are (a string is
  ignored, an object becomes the prototype).
\<close>

definition obj_set :: "obj \<Rightarrow> string \<Rightarrow> jsval \<Rightarrow> obj" where
  "obj_set kvs k v =
     (if k \<in> fst ` set kvs
      then map (\<lambda>(k', v'). if k' = k then (k', v) else (k', v')) kvs
      else if k = ''__proto__'' then kvs
      else if array_index k then insert_index k v kvs
      else kvs @ [(k, v)])"

text \<open>
  The read \<^verbatim>\<open>obj[key]\<close>: the property that the object owns, or else what it inherits
  under the key.
\<close>

definition obj_get :: "obj \<Rightarrow> string \<Rightarrow> jsval option" where
  "obj_get kvs k = (case map_of kvs k of Some v \<Rightarrow> Some v | None \<Rightarrow> inherited k)"

text \<open>\<^verbatim>\<open>Object.entries(obj).map(([k, v]) => `${k}=${v}`).join("\n")\<close>.\<close>

definition serialize :: "node \<Rightarrow> obj \<Rightarrow> string" where
  "serialize n kvs = join_lines (map (\<lambda>(k, v). k @ ''='' @ to_text n v) kvs)"

section \<open>Regular expressions, as far as the env-file reader needs them\<close>

text \<open>
  The env files are read with \<^verbatim>\<open>dotenv.parse\<close>. The package \<^verbatim>\<open>dotenv\<close> is a dependency of
  the program, not part of its repository; its \<^verbatim>\<open>parse\<close> (version 16, \<^verbatim>\<open>lib/main.js\<close>) is a
  loop over the matches of one regular expression. The model transcribes that expression
  and that loop, and runs the expression with a backtracking matcher that follows
  ECMAScript: alternatives are tried from left to right, a greedy star tries one more
  iteration before it tries to go on, a lazy star the other way round, and an iteration
  that consumes nothing is refused. The flags are \<^verbatim>\<open>m\<close> and \<^verbatim>\<open>g\<close>: \<^term>\<open>Bol\<close> and \<^term>\<open>Eol\<close>
  match beside a line terminator as well as at the ends of the text.
\<close>

datatype rx =
    One "char \<Rightarrow> bool"
  | Eps
  | Seq rx rx
  | Alt rx rx
  | Star rx
  | LazyStar rx
  | Group nat rx
  | Back nat
  | Bol
  | Eol

text \<open>
  A state of the matcher: the character before the position (if any), the text from the
  position on, and the groups captured so far, the latest first.
\<close>

type_synonym mstate = "char option \<times> string \<times> (nat \<times> string) list"

definition before :: "mstate \<Rightarrow> char option" where
  "before st = fst st"

definition ahead :: "mstate \<Rightarrow> string" where
  "ahead st = fst (snd st)"

definition groups :: "mstate \<Rightarrow> (nat \<times> string) list" where
  "groups st = snd (snd st)"

definition group :: "mstate \<Rightarrow> nat \<Rightarrow> string option" where
  "group st n = map_of (groups st) n"

text \<open>
  The iteration of a star. The third argument bounds the number of iterations by the
  length of the text ahead; every iteration consumes a character, so the bound is never
  what ends the iteration.
\<close>

fun rx_iter :: "bool \<Rightarrow> (mstate \<Rightarrow> (mstate \<Rightarrow> 'a option) \<Rightarrow> 'a option) \<Rightarrow> string \<Rightarrow>
    mstate \<Rightarrow> (mstate \<Rightarrow> 'a option) \<Rightarrow> 'a option" where
  "rx_iter greedy body [] st k = k st"
| "rx_iter greedy body (x # bound) st k =
     (if greedy then
        (case body st (\<lambda>st'. if length (ahead st') < length (ahead st)
                              then rx_iter greedy body bound st' k else None) of
           Some r \<Rightarrow> Some r
         | None \<Rightarrow> k st)
      else
        (case k st of
           Some r \<Rightarrow> Some r
         | None \<Rightarrow> body st (\<lambda>st'. if length (ahead st') < length (ahead st)
                              then rx_iter greedy body bound st' k else None)))"

fun strip_prefix :: "string \<Rightarrow> string \<Rightarrow> string option" where
  "strip_prefix [] s = Some s"
| "strip_prefix (p # ps) [] = None"
| "strip_prefix (p # ps) (c # cs) = (if p = c then strip_prefix ps cs else None)"

fun last_char :: "char option \<Rightarrow> string \<Rightarrow> char option" where
  "last_char prev [] = prev"
| "last_char prev (c # cs) = last_char (Some c) cs"

text \<open>
  The matcher, with the rest of the expression as a continuation: the result is that of
  the first way of matching for which the continuation succeeds.
\<close>

primrec rx_match :: "rx \<Rightarrow> mstate \<Rightarrow> (mstate \<Rightarrow> 'a option) \<Rightarrow> 'a option" where
  "rx_match (One p) st k =
     (case ahead st of
        [] \<Rightarrow> None
      | c # cs \<Rightarrow> if p c then k (Some c, cs, groups st) else None)"
| "rx_match Eps st k = k st"
| "rx_match (Seq a b) st k = rx_match a st (\<lambda>st'. rx_match b st' k)"
| "rx_match (Alt a b) st k =
     (case rx_match a st k of Some r \<Rightarrow> Some r | None \<Rightarrow> rx_match b st k)"
| "rx_match (Star a) st k = rx_iter True (rx_match a) (ahead st) st k"
| "rx_match (LazyStar a) st k = rx_iter False (rx_match a) (ahead st) st k"
| "rx_match (Group n a) st k =
     rx_match a st (\<lambda>st'. k (before st', ahead st',
        (n, take (length (ahead st) - length (ahead st')) (ahead st)) # groups st'))"
| "rx_match (Back n) st k =
     (case group st n of
        None \<Rightarrow> k st
      | Some t \<Rightarrow>
          (case strip_prefix t (ahead st) of
             None \<Rightarrow> None
           | Some s' \<Rightarrow> k (last_char (before st) t, s', groups st)))"
| "rx_match Bol st k =
     (case before st of None \<Rightarrow> k st | Some c \<Rightarrow> if line_end c then k st else None)"
| "rx_match Eol st k =
     (case ahead st of [] \<Rightarrow> k st | c # cs \<Rightarrow> if line_end c then k st else None)"

text \<open>
  The search for the leftmost match from a position on: the text passed over, and the
  state at the end of the match.
\<close>

fun rx_search :: "rx \<Rightarrow> char option \<Rightarrow> string \<Rightarrow> string \<Rightarrow> (string \<times> mstate) option" where
  "rx_search r prev skipped [] =
     (case rx_match r (prev, [], []) Some of
        None \<Rightarrow> None
      | Some st \<Rightarrow> Some (rev skipped, st))"
| "rx_search r prev skipped (c # cs) =
     (case rx_match r (prev, c # cs, []) Some of
        Some st \<Rightarrow> Some (rev skipped, st)
      | None \<Rightarrow> rx_search r (Some c) (c # skipped) cs)"

definition Lit :: "char \<Rightarrow> rx" where
  "Lit c = One (\<lambda>x. x = c)"

definition Plus :: "rx \<Rightarrow> rx" where
  "Plus a = Seq a (Star a)"

definition LazyPlus :: "rx \<Rightarrow> rx" where
  "LazyPlus a = Seq a (LazyStar a)"

definition Opt :: "rx \<Rightarrow> rx" where
  "Opt a = Alt a Eps"

fun Str :: "string \<Rightarrow> rx" where
  "Str [] = Eps"
| "Str (c # cs) = Seq (Lit c) (Str cs)"

section \<open>The env-file reader\<close>

text \<open>
  The expression of \<^verbatim>\<open>dotenv\<close> for one assignment:
  \<^verbatim>\<open>/(?:^|^)\s*(?:export\s+)?([\w.-]+)(?:\s*=\s*?|:\s+?)(\s*'(?:\\'|[^'])*'|\s*"(?:\\"|[^"])*"|\s*`(?:\\`|[^`])*`|[^#\r\n]+)?\s*(?:#.*)?(?:$|$)/mg\<close>.
  Group 1 is the key, group 2 the raw value. \<^term>\<open>quoted q\<close> is one of the three quoted
  alternatives of group 2, for the quote character \<^term>\<open>q\<close>.
\<close>

definition quoted :: "char \<Rightarrow> rx" where
  "quoted q =
     Seq (Star (One js_space))
    (Seq (Lit q)
    (Seq (Star (Alt (Seq (Lit (CHR 0x5C)) (Lit q)) (One (\<lambda>c. c \<noteq> q))))
         (Lit q)))"

definition LINE :: rx where
  "LINE =
     Seq (Alt Bol Bol)
    (Seq (Star (One js_space))
    (Seq (Opt (Seq (Str ''export'') (Plus (One js_space))))
    (Seq (Group 1 (Plus (One (\<lambda>c. word_char c \<or> c = CHR ''.'' \<or> c = CHR ''-''))))
    (Seq (Alt (Seq (Star (One js_space)) (Seq (Lit (CHR ''='')) (LazyStar (One js_space))))
              (Seq (Lit (CHR '':'')) (LazyPlus (One js_space))))
    (Seq (Opt (Group 2
           (Alt (quoted (CHR 0x27))
           (Alt (quoted (CHR 0x22))
           (Alt (quoted (CHR 0x60))
                (Plus (One (\<lambda>c. c \<noteq> CHR ''#'' \<and> c \<noteq> CHR 0x0D \<and> c \<noteq> CHR 0x0A))))))))
    (Seq (Star (One js_space))
    (Seq (Opt (Seq (Lit (CHR ''#'')) (Star (One (\<lambda>c. \<not> line_end c)))))
         (Alt Eol Eol))))))))"

text \<open>\<^verbatim>\<open>lines.replace(/\r\n?/mg, '\n')\<close>.\<close>

fun unify_breaks :: "string \<Rightarrow> string" where
  "unify_breaks [] = []"
| "unify_breaks [c] = (if c = CHR 0x0D then [CHR 0x0A] else [c])"
| "unify_breaks (c # d # r) =
     (if c = CHR 0x0D then
        (if d = CHR 0x0A then CHR 0x0A # unify_breaks r else CHR 0x0A # unify_breaks (d # r))
      else c # unify_breaks (d # r))"

text \<open>
  \<^verbatim>\<open>value.replace(/^(['"`])([\s\S]*)\1$/mg, '$2')\<close>: every match is replaced by its second
  group. A match holds two quote characters at least, so the scan after it starts on a
  shorter text; the test of the lengths is there for the termination proof only.
\<close>

definition UNQUOTE :: rx where
  "UNQUOTE =
     Seq Bol
    (Seq (Group 1 (One (\<lambda>c. c = CHR 0x27 \<or> c = CHR 0x22 \<or> c = CHR 0x60)))
    (Seq (Group 2 (Star (One (\<lambda>c. True))))
    (Seq (Back 1) Eol)))"

function unquote :: "char option \<Rightarrow> string \<Rightarrow> string" where
  "unquote prev s =
     (case rx_search UNQUOTE prev [] s of
        None \<Rightarrow> s
      | Some (skipped, st) \<Rightarrow>
          skipped @ (case group st 2 of None \<Rightarrow> [] | Some t \<Rightarrow> t) @
          (if length (ahead st) < length s then unquote (before st) (ahead st)
           else ahead st))"
  by pat_completeness auto
termination
  by (relation "measure (\<lambda>(prev, s). length s)") auto

text \<open>
  \<^verbatim>\<open>value.replace(/\\n/g, '\n')\<close> and \<^verbatim>\<open>value.replace(/\\r/g, '\r')\<close>: a backslash followed
  by the letter \<^term>\<open>e\<close> becomes the character \<^term>\<open>x\<close>.
\<close>

fun unescape :: "char \<Rightarrow> char \<Rightarrow> string \<Rightarrow> string" where
  "unescape e x [] = []"
| "unescape e x [c] = [c]"
| "unescape e x (c # d # r) =
     (if c = CHR 0x5C \<and> d = e then x # unescape e x r else c # unescape e x (d # r))"

text \<open>
  The value of a matched assignment: \<^verbatim>\<open>(match[2] || '')\<close>, trimmed, without its
  surrounding quotes, and with \<^verbatim>\<open>\n\<close> and \<^verbatim>\<open>\r\<close> expanded when it was double quoted.
\<close>

definition line_value :: "mstate \<Rightarrow> string" where
  "line_value st =
     (let v = trim (case group st 2 of None \<Rightarrow> [] | Some t \<Rightarrow> t) in
      if take 1 v = [CHR 0x22]
      then unescape (CHR ''r'') (CHR 0x0D) (unescape (CHR ''n'') (CHR 0x0A) (unquote None v))
      else unquote None v)"

definition line_key :: "mstate \<Rightarrow> string" where
  "line_key st = (case group st 1 of None \<Rightarrow> [] | Some t \<Rightarrow> t)"

text \<open>
  The loop \<^verbatim>\<open>while ((match = LINE.exec(lines)) != null) obj[key] = value\<close>. A match holds
  a key of one character at least, so the next search starts on a shorter text; the test
  of the lengths is there for the termination proof only.
\<close>

function parse_lines :: "char option \<Rightarrow> string \<Rightarrow> obj \<Rightarrow> obj" where
  "parse_lines prev s kvs =
     (case rx_search LINE prev [] s of
        None \<Rightarrow> kvs
      | Some (skipped, st) \<Rightarrow>
          (if length (ahead st) < length s
           then parse_lines (before st) (ahead st)
                  (obj_set kvs (line_key st) (Text (line_value st)))
           else obj_set kvs (line_key st) (Text (line_value st))))"
  by pat_completeness auto
termination
  by (relation "measure (\<lambda>(prev, s, kvs). length s)") auto

definition dotenv_parse :: "string \<Rightarrow> obj" where
  "dotenv_parse src = parse_lines None (unify_breaks src) []"

section \<open>Config model\<close>

text \<open>
  The interfaces \<^verbatim>\<open>EnvVariable\<close>, \<^verbatim>\<open>SetupStep\<close>, \<^verbatim>\<open>Project\<close> and \<^verbatim>\<open>SetupConfig\<close>. An optional
  field is an option. Three field names are suffixed because the name is taken: \<^verbatim>\<open>id\<close> of
  a project, \<^verbatim>\<open>required\<close> of a step and \<^verbatim>\<open>projects\<close> of the config.
\<close>

record EnvVariable =
  name :: string
  projects :: "string list"
  details :: string
  required :: "bool option"
  defaultValue :: "string option"
  template :: "string option"
  info :: "string list option"

record SetupStep =
  title :: string
  instructions :: string
  variables :: "EnvVariable list"
  additionalInstructions :: "string list option"
  required_step :: "bool option"
  description :: "string option"
  interactive :: "bool option"

record Project =
  id_project :: string
  envFile :: "string option"
  exportCommand :: "string option"
  importCommand :: "string option"
  ignoreLogs :: "string list option"

record SetupConfig =
  introMessage :: string
  projects_config :: "Project list"
  steps :: "SetupStep list"

section \<open>Loading the config\<close>

text \<open>
  The read \<^verbatim>\<open>config.projects\<close> of a parsed config that is not \<^verbatim>\<open>null\<close>: a number, a
  string, a truth value and an array have no such property.
\<close>

definition config_projects :: "json \<Rightarrow> json option" where
  "config_projects config = (case config of JObj kvs \<Rightarrow> map_of kvs ''projects'' | _ \<Rightarrow> None)"

definition isArray :: "json option \<Rightarrow> bool" where
  "isArray v = (case v of Some (JArr xs) \<Rightarrow> True | _ \<Rightarrow> False)"

text \<open>
  \<^verbatim>\<open>loadConfig\<close>. Whatever is thrown inside its \<^verbatim>\<open>try\<close> (by the read of the file, by
  \<^verbatim>\<open>JSON.parse\<close>, by the read of a property of \<^verbatim>\<open>null\<close>, or by the check of \<^verbatim>\<open>projects\<close>)
  is reported, and the process exits with status 1.
\<close>

definition load_failed :: "load_error \<Rightarrow> world \<Rightarrow> json outcome" where
  "load_failed e w = Stop Exit1 (emit (LogError (LoadFailed e)) w)"

definition loadConfig :: "node \<Rightarrow> string \<Rightarrow> world \<Rightarrow> json outcome" where
  "loadConfig n configPath w =
     (let w' = emit (Read configPath) (emit (Log (LoadingConfig configPath)) w) in
      case files w configPath of
        None \<Rightarrow> load_failed Unreadable w'
      | Some configContent \<Rightarrow>
          (case json_parse n configContent of
             Inl message \<Rightarrow> load_failed (Malformed message) w'
           | Inr config \<Rightarrow>
               if config = JNull then load_failed NullConfig w'
               else if \<not> isArray (config_projects config) then load_failed MissingProjects w'
               else Ok config w'))"

section \<open>Value Store Adapter\<close>

text \<open>\<^verbatim>\<open>projects.find((p) => p.id === projectId)\<close>.\<close>

definition find_project :: "Project list \<Rightarrow> string \<Rightarrow> Project option" where
  "find_project ps projectId = find (\<lambda>p. id_project p = projectId) ps"

text \<open>
  \<^verbatim>\<open>s.replace(pattern, replacement)\<close> for a pattern and a replacement that are strings:
  the first occurrence is replaced, and in the replacement \<^verbatim>\<open>$$\<close> stands for a dollar
  sign, \<^verbatim>\<open>$&\<close> for the occurrence, \<^verbatim>\<open>$`\<close> for the text before it and \<^verbatim>\<open>$'\<close> for the text
  after it.
\<close>

fun split_first :: "string \<Rightarrow> string \<Rightarrow> string \<Rightarrow> (string \<times> string) option" where
  "split_first pattern passed [] = (if pattern = [] then Some (rev passed, []) else None)"
| "split_first pattern passed (c # cs) =
     (case strip_prefix pattern (c # cs) of
        Some rest \<Rightarrow> Some (rev passed, rest)
      | None \<Rightarrow> split_first pattern (c # passed) cs)"

fun substitution :: "string \<Rightarrow> string \<Rightarrow> string \<Rightarrow> string \<Rightarrow> string" where
  "substitution matched pre post [] = []"
| "substitution matched pre post [c] = [c]"
| "substitution matched pre post (c # d # r) =
     (if c = CHR ''$'' \<and> d = CHR ''$'' then CHR ''$'' # substitution matched pre post r
      else if c = CHR ''$'' \<and> d = CHR ''&'' then matched @ substitution matched pre post r
      else if c = CHR ''$'' \<and> d = CHR 0x60 then pre @ substitution matched pre post r
      else if c = CHR ''$'' \<and> d = CHR 0x27 then post @ substitution matched pre post r
      else c # substitution matched pre post (d # r))"

definition js_replace :: "string \<Rightarrow> string \<Rightarrow> string \<Rightarrow> string" where
  "js_replace pattern replacement s =
     (case split_first pattern [] s of
        None \<Rightarrow> s
      | Some (pre, post) \<Rightarrow> pre @ substitution pattern pre post replacement @ post)"

text \<open>
  \<^verbatim>\<open>s.replace(pattern, value)\<close> for a value of the program. A text is a replacement
  string. \<^verbatim>\<open>Object.prototype\<close> is no function, so its text is the replacement string. A
  built-in function is a replacer: when the pattern occurs, the function is called on
  \<^verbatim>\<open>undefined\<close> with the occurrence, its position and the string, and the text of what it
  returns replaces the occurrence. \<^verbatim>\<open>Object\<close> returns the occurrence as a String object,
  \<^verbatim>\<open>toString\<close> returns \<^verbatim>\<open>[object Undefined]\<close>, \<^verbatim>\<open>isPrototypeOf\<close> returns \<^verbatim>\<open>false\<close> for an
  argument that is no object; each of the other functions starts by converting
  \<^verbatim>\<open>undefined\<close> to an object, which throws a \<^verbatim>\<open>TypeError\<close>. The result is the new string,
  or the message of the error.
\<close>

definition member_call :: "string \<Rightarrow> string \<Rightarrow> string option" where
  "member_call m matched =
     (if m = ''constructor'' then Some matched
      else if m = ''toString'' then Some ''[object Undefined]''
      else if m = ''isPrototypeOf'' then Some ''false''
      else None)"

definition replace_value :: "node \<Rightarrow> string \<Rightarrow> jsval \<Rightarrow> string \<Rightarrow> string + string" where
  "replace_value n pattern val s =
     (case val of
        Text replacement \<Rightarrow> Inr (js_replace pattern replacement s)
      | Member m \<Rightarrow>
          if m = ''__proto__'' then Inr (js_replace pattern (to_text n val) s)
          else
            (case split_first pattern [] s of
               None \<Rightarrow> Inr s
             | Some (pre, post) \<Rightarrow>
                 (case member_call m pattern of
                    Some text \<Rightarrow> Inr (pre @ text @ post)
                  | None \<Rightarrow> Inl (member_error n m))))"

text \<open>The working directory of the commands: \<^verbatim>\<open>path.join(projectDir, "packages", "backend")\<close>.\<close>

definition convexDir :: "node \<Rightarrow> string \<Rightarrow> string" where
  "convexDir n projectDir = path_join n [projectDir, ''packages'', ''backend'']"

text \<open>\<^verbatim>\<open>getEnvFileValue\<close>: a file that cannot be read has no value for any key.\<close>

definition getEnvFileValue :: "string \<Rightarrow> string \<Rightarrow> world \<Rightarrow> jsval option \<times> world" where
  "getEnvFileValue filePath key w =
     (case files w filePath of
        None \<Rightarrow> (None, emit (Read filePath) w)
      | Some envContent \<Rightarrow> (obj_get (dotenv_parse envContent) key, emit (Read filePath) w))"

text \<open>
  \<^verbatim>\<open>updateEnvFile\<close>: a file that cannot be read is taken as empty. The write is outside
  every \<^verbatim>\<open>try\<close>: when it throws, the file stays as it was and nothing catches the error.
\<close>

definition updateEnvFile ::
    "node \<Rightarrow> string \<Rightarrow> string \<Rightarrow> jsval \<Rightarrow> world \<Rightarrow> unit outcome" where
  "updateEnvFile n filePath key val w =
     (let content = (case files w filePath of None \<Rightarrow> [] | Some c \<Rightarrow> c);
          newContent = serialize n (obj_set (dotenv_parse content) key val);
          w' = emit (Write filePath newContent) (emit (Read filePath) w)
      in if write_fails w filePath then Stop Thrown w'
         else Ok () (w'\<lparr>disk := (disk w)(filePath \<mapsto> newContent)\<rparr>))"

text \<open>
  The body of the loop of \<^verbatim>\<open>getExistingValue\<close> for one project that was found: the value
  that the project has for the variable, if it has one. A project with an env file is read
  from the file; otherwise a project with an import command is asked through the command,
  whose failure is reported and taken as no value.
\<close>

definition read_project ::
    "node \<Rightarrow> Project \<Rightarrow> string \<Rightarrow> string \<Rightarrow> world \<Rightarrow> jsval option \<times> world" where
  "read_project n project vname projectDir w =
     (case nonempty (envFile project) of
        Some envfile \<Rightarrow>
          (case getEnvFileValue (path_join n [projectDir, envfile]) vname w of
             (v, w') \<Rightarrow> (present v, w'))
      | None \<Rightarrow>
          (case nonempty (importCommand project) of
             Some command \<Rightarrow>
               (let cmd = js_replace ''{{name}}'' vname command;
                    w' = emit (Exec cmd (convexDir n projectDir)) w
                in case execSync n cmd (convexDir n projectDir) of
                     Inr out \<Rightarrow> (present (Some (Text (trim out))), w')
                   | Inl message \<Rightarrow> (None, emit (LogError (ReadError message)) w'))
           | None \<Rightarrow> (None, w)))"

text \<open>
  The loop of \<^verbatim>\<open>getExistingValue\<close> over the project ids of the variable: an id without a
  project is passed over, and the first value that is found is returned.
\<close>

fun lookup_projects ::
    "node \<Rightarrow> Project list \<Rightarrow> string \<Rightarrow> string \<Rightarrow> string list \<Rightarrow> world \<Rightarrow>
     jsval option \<times> world" where
  "lookup_projects n ps vname projectDir [] w = (None, w)"
| "lookup_projects n ps vname projectDir (projectId # ids) w =
     (case find_project ps projectId of
        None \<Rightarrow> lookup_projects n ps vname projectDir ids w
      | Some project \<Rightarrow>
          (case read_project n project vname projectDir w of
             (Some v, w') \<Rightarrow> (Some v, w')
           | (None, w') \<Rightarrow> lookup_projects n ps vname projectDir ids w'))"

definition getExistingValue ::
    "node \<Rightarrow> Project list \<Rightarrow> EnvVariable \<Rightarrow> string \<Rightarrow> world \<Rightarrow> jsval option \<times> world" where
  "getExistingValue n ps variable projectDir w =
     lookup_projects n ps (name variable) projectDir (projects variable) w"

text \<open>
  \<^verbatim>\<open>updateProjectValue\<close>: a project with an env file is written to the file, and the path
  of the file is returned, unless the write throws; otherwise a project with an export
  command is written through the command, and nothing is returned. The command line is
  built and the command is run inside a \<^verbatim>\<open>try\<close>: what is thrown there is reported.
\<close>

definition export_failed :: "string \<Rightarrow> Project \<Rightarrow> string \<Rightarrow> world \<Rightarrow> world" where
  "export_failed key project message w =
     emit (LogError (ExportError message))
       (emit (LogError (ExportFailed key (id_project project))) w)"

definition updateProjectValue ::
    "node \<Rightarrow> Project \<Rightarrow> string \<Rightarrow> jsval \<Rightarrow> string \<Rightarrow> world \<Rightarrow> string option outcome" where
  "updateProjectValue n project key val projectDir w =
     (case nonempty (envFile project) of
        Some envfile \<Rightarrow>
          (case updateEnvFile n (path_join n [projectDir, envfile]) key val w of
             Stop f w' \<Rightarrow> Stop f w'
           | Ok u w' \<Rightarrow> Ok (Some (path_relative n (path_join n [projectDir, envfile]))) w')
      | None \<Rightarrow>
          (case nonempty (exportCommand project) of
             Some command \<Rightarrow>
               (case replace_value n ''{{value}}'' val (js_replace ''{{name}}'' key command) of
                  Inl message \<Rightarrow> Ok None (export_failed key project message w)
                | Inr cmd \<Rightarrow>
                    (case execSync n cmd (convexDir n projectDir) of
                       Inr out \<Rightarrow> Ok None (emit (Exec cmd (convexDir n projectDir)) w)
                     | Inl message \<Rightarrow>
                         Ok None (export_failed key project message
                                    (emit (Exec cmd (convexDir n projectDir)) w))))
           | None \<Rightarrow> Ok None w))"

section \<open>The console of the walk\<close>

text \<open>
  \<^verbatim>\<open>shouldIgnoreLog\<close>, and \<^verbatim>\<open>customConsole.log\<close>: a line is printed unless its text starts with
  a prefix that some project of the config lists in \<^verbatim>\<open>ignoreLogs\<close>.
\<close>

definition shouldIgnoreLog :: "string \<Rightarrow> string list option \<Rightarrow> bool" where
  "shouldIgnoreLog message prefixes =
     list_ex (startsWith message) (case prefixes of None \<Rightarrow> [] | Some ps \<Rightarrow> ps)"

definition ignored :: "node \<Rightarrow> SetupConfig \<Rightarrow> line \<Rightarrow> bool" where
  "ignored n config l =
     list_ex (\<lambda>p. shouldIgnoreLog (styled n l) (ignoreLogs p)) (projects_config config)"

definition customConsole_log :: "node \<Rightarrow> SetupConfig \<Rightarrow> line \<Rightarrow> world \<Rightarrow> world" where
  "customConsole_log n config l w = (if \<not> ignored n config l then emit (Log l) w else w)"

section \<open>Persistence Fan-out\<close>

text \<open>
  The loop over the project ids of an accepted variable: an id without a project is
  passed over; for a project, the value is written and the path that is returned, if it
  is not empty, is collected. A write that throws ends the loop, and the walk with it.
\<close>

fun fan_out ::
    "node \<Rightarrow> Project list \<Rightarrow> string \<Rightarrow> jsval \<Rightarrow> string \<Rightarrow> string list \<Rightarrow>
     string list \<Rightarrow> world \<Rightarrow> string list outcome" where
  "fan_out n ps key val projectDir [] updatedFiles w = Ok updatedFiles w"
| "fan_out n ps key val projectDir (projectId # ids) updatedFiles w =
     (case find_project ps projectId of
        None \<Rightarrow> fan_out n ps key val projectDir ids updatedFiles w
      | Some project \<Rightarrow>
          (case updateProjectValue n project key val projectDir w of
             Stop f w' \<Rightarrow> Stop f w'
           | Ok updatedFile w' \<Rightarrow>
               fan_out n ps key val projectDir ids
                 (case nonempty updatedFile of
                    Some f \<Rightarrow> updatedFiles @ [f]
                  | None \<Rightarrow> updatedFiles)
                 w'))"

text \<open>The report of a variable that was set: the files that were touched, if any.\<close>

definition report_set :: "node \<Rightarrow> SetupConfig \<Rightarrow> string \<Rightarrow> string list \<Rightarrow> world \<Rightarrow> world" where
  "report_set n config vname updatedFiles w =
     (if updatedFiles \<noteq> []
      then foldl (\<lambda>w f. customConsole_log n config (SetFile f) w)
             (customConsole_log n config (SetIn vname) w) updatedFiles
      else customConsole_log n config (SetPlain vname) w)"

text \<open>
  The acceptance policy, \<^verbatim>\<open>if (value || variable.required !== false)\<close>, with the fan-out
  and its report on the one side and the report of the skip on the other.
\<close>

definition accepted :: "EnvVariable \<Rightarrow> jsval \<Rightarrow> bool" where
  "accepted variable val \<longleftrightarrow> truthy_value (Some val) \<or> required variable \<noteq> Some False"

definition persist ::
    "node \<Rightarrow> SetupConfig \<Rightarrow> string \<Rightarrow> EnvVariable \<Rightarrow> jsval \<Rightarrow> world \<Rightarrow> unit outcome" where
  "persist n config projectDir variable val w =
     (if accepted variable val then
        (case fan_out n (projects_config config) (name variable) val projectDir
                (projects variable) [] w of
           Stop f w' \<Rightarrow> Stop f w'
         | Ok updatedFiles w' \<Rightarrow> Ok () (report_set n config (name variable) updatedFiles w'))
      else Ok () (customConsole_log n config (Skipped (name variable)) w))"

section \<open>Variable Resolution Engine\<close>

text \<open>The details of a variable and its info strings, each rendered and shown in a box.\<close>

definition announce_variable ::
    "node \<Rightarrow> SetupConfig \<Rightarrow> Values \<Rightarrow> EnvVariable \<Rightarrow> world \<Rightarrow> world" where
  "announce_variable n config values variable w =
     (case info variable of
        None \<Rightarrow> customConsole_log n config (Details (details variable)) w
      | Some items \<Rightarrow>
          foldl (\<lambda>w infoItem.
                   customConsole_log n config (InfoBox (render_info n values infoItem)) w)
            (customConsole_log n config (Details (details variable)) w) items)"

text \<open>
  \<^verbatim>\<open>existingValue || (variable.template ? render(variable.template) : variable.defaultValue)\<close>.
\<close>

definition computed_default ::
    "node \<Rightarrow> Values \<Rightarrow> EnvVariable \<Rightarrow> jsval option \<Rightarrow> jsval option" where
  "computed_default n values variable existingValue =
     or_value existingValue
       (case nonempty (template variable) of
          Some t \<Rightarrow> Some (Text (render_template n values t))
        | None \<Rightarrow> map_option Text (defaultValue variable))"

text \<open>
  The value of the variable: in a step with \<^verbatim>\<open>interactive === false\<close> it is
  \<^verbatim>\<open>defaultValue || ""\<close>; otherwise the operator is asked, and the value is the answer.
\<close>

definition ask_input :: "EnvVariable \<Rightarrow> jsval option \<Rightarrow> world \<Rightarrow> jsval outcome" where
  "ask_input variable dflt w =
     (case typed w of
        [] \<Rightarrow>
          Stop Interrupted (emit (Input (name variable) (required variable = Some False) dflt) w)
      | answer # answers \<Rightarrow>
          Ok answer
            ((emit (Input (name variable) (required variable = Some False) dflt) w)
               \<lparr>typed := answers\<rparr>))"

definition determine_value ::
    "SetupStep \<Rightarrow> EnvVariable \<Rightarrow> jsval option \<Rightarrow> world \<Rightarrow> jsval outcome" where
  "determine_value step variable dflt w =
     (if interactive step = Some False then Ok (or_empty dflt) w
      else ask_input variable dflt w)"

text \<open>The body of the loop over the variables of a step.\<close>

definition process_variable ::
    "node \<Rightarrow> SetupConfig \<Rightarrow> string \<Rightarrow> Values \<Rightarrow> SetupStep \<Rightarrow> EnvVariable \<Rightarrow> world \<Rightarrow>
     unit outcome" where
  "process_variable n config projectDir values step variable w =
     (case getExistingValue n (projects_config config) variable projectDir
             (announce_variable n config values variable w) of
        (existingValue, w') \<Rightarrow>
          (case determine_value step variable
                  (computed_default n values variable existingValue) w' of
             Stop f w'' \<Rightarrow> Stop f w''
           | Ok val w'' \<Rightarrow> persist n config projectDir variable val w''))"

section \<open>Step Walker\<close>

fun process_variables ::
    "node \<Rightarrow> SetupConfig \<Rightarrow> string \<Rightarrow> Values \<Rightarrow> SetupStep \<Rightarrow> EnvVariable list \<Rightarrow> world \<Rightarrow>
     unit outcome" where
  "process_variables n config projectDir values step [] w = Ok () w"
| "process_variables n config projectDir values step (variable # vs) w =
     (case process_variable n config projectDir values step variable w of
        Stop f w' \<Rightarrow> Stop f w'
      | Ok u w' \<Rightarrow> process_variables n config projectDir values step vs w')"

text \<open>The title, the description, the instructions and the additional instructions.\<close>

definition announce_step :: "node \<Rightarrow> SetupConfig \<Rightarrow> nat \<Rightarrow> SetupStep \<Rightarrow> world \<Rightarrow> world" where
  "announce_step n config index step w =
     (let w1 = customConsole_log n config (StepTitle (index + 1) (title step)) w;
          w2 = (case nonempty (description step) of
                  Some d \<Rightarrow> customConsole_log n config (Description d) w1
                | None \<Rightarrow> w1);
          w3 = customConsole_log n config (Instructions (instructions step)) w2
      in case additionalInstructions step of
           None \<Rightarrow> w3
         | Some extra \<Rightarrow>
             customConsole_log n config Blank
               (foldl (\<lambda>w instruction. customConsole_log n config (Additional instruction) w)
                  (customConsole_log n config AdditionalHeader w3) extra))"

text \<open>The confirmation \<^verbatim>\<open>This step is optional. Would you like to set it up?\<close>.\<close>

definition ask_confirm :: "world \<Rightarrow> bool outcome" where
  "ask_confirm w =
     (case yes_no w of
        [] \<Rightarrow> Stop Interrupted (emit Confirm w)
      | answer # answers \<Rightarrow> Ok answer ((emit Confirm w)\<lparr>yes_no := answers\<rparr>))"

definition run_variables ::
    "node \<Rightarrow> SetupConfig \<Rightarrow> string \<Rightarrow> Values \<Rightarrow> SetupStep \<Rightarrow> world \<Rightarrow> unit outcome" where
  "run_variables n config projectDir values step w =
     (case process_variables n config projectDir values step (variables step) w of
        Stop f w' \<Rightarrow> Stop f w'
      | Ok u w' \<Rightarrow> Ok () (customConsole_log n config StepCompleted w'))"

text \<open>The body of the loop over the steps.\<close>

definition process_step ::
    "node \<Rightarrow> SetupConfig \<Rightarrow> string \<Rightarrow> Values \<Rightarrow> nat \<Rightarrow> SetupStep \<Rightarrow> world \<Rightarrow> unit outcome" where
  "process_step n config projectDir values index step w =
     (if required_step step = Some False \<and> interactive step \<noteq> Some False then
        (case ask_confirm (announce_step n config index step w) of
           Stop f w' \<Rightarrow> Stop f w'
         | Ok setupStep w' \<Rightarrow>
             if \<not> setupStep then Ok () (customConsole_log n config (SkippingStep (title step)) w')
             else run_variables n config projectDir values step w')
      else run_variables n config projectDir values step (announce_step n config index step w))"

fun process_steps ::
    "node \<Rightarrow> SetupConfig \<Rightarrow> string \<Rightarrow> Values \<Rightarrow> nat \<Rightarrow> SetupStep list \<Rightarrow> world \<Rightarrow>
     unit outcome" where
  "process_steps n config projectDir values index [] w = Ok () w"
| "process_steps n config projectDir values index (step # ss) w =
     (case process_step n config projectDir values index step w of
        Stop f w' \<Rightarrow> Stop f w'
      | Ok u w' \<Rightarrow> process_steps n config projectDir values (index + 1) ss w')"

text \<open>
  \<^verbatim>\<open>setupEnvironment\<close>, from the config that \<^verbatim>\<open>loadConfig\<close> returned on: the config is
  taken as a value of the interface \<^verbatim>\<open>SetupConfig\<close> that it is cast to.
\<close>

definition setupEnvironment ::
    "node \<Rightarrow> string \<Rightarrow> Values \<Rightarrow> SetupConfig \<Rightarrow> world \<Rightarrow> unit outcome" where
  "setupEnvironment n projectDir values config w =
     (case process_steps n config projectDir values 0 (steps config)
             (customConsole_log n config PressCtrlC
               (customConsole_log n config (Intro (introMessage config))
                 (customConsole_log n config Welcome w))) of
        Stop f w' \<Rightarrow> Stop f w'
      | Ok u w' \<Rightarrow> Ok () (customConsole_log n config SetupComplete w'))"

section \<open>Reading a run\<close>

text \<open>
  The events that happened between two states of the world, the world that an outcome
  ends in, and the kinds of events.
\<close>

definition since :: "world \<Rightarrow> world \<Rightarrow> event list" where
  "since w w' = drop (length (trace w)) (trace w')"

fun world_of :: "'a outcome \<Rightarrow> world" where
  "world_of (Ok x w) = w"
| "world_of (Stop f w) = w"

fun is_prompt :: "event \<Rightarrow> bool" where
  "is_prompt Confirm = True"
| "is_prompt (Input vname optional dflt) = True"
| "is_prompt e = False"

fun is_write :: "event \<Rightarrow> bool" where
  "is_write (Write filePath content) = True"
| "is_write (Exec cmd cwd) = True"
| "is_write e = False"

fun is_access :: "event \<Rightarrow> bool" where
  "is_access (Read filePath) = True"
| "is_access (Write filePath content) = True"
| "is_access (Exec cmd cwd) = True"
| "is_access (LogError l) = True"
| "is_access e = False"

fun is_set_report :: "event \<Rightarrow> bool" where
  "is_set_report (Log (SetIn vname)) = True"
| "is_set_report (Log (SetFile f)) = True"
| "is_set_report (Log (SetPlain vname)) = True"
| "is_set_report e = False"

fun is_exec :: "event \<Rightarrow> bool" where
  "is_exec (Exec cmd cwd) = True"
| "is_exec e = False"

fun is_step_line :: "event \<Rightarrow> bool" where
  "is_step_line (Log (StepTitle index t)) = True"
| "is_step_line (Log (Description d)) = True"
| "is_step_line (Log (Instructions i)) = True"
| "is_step_line (Log AdditionalHeader) = True"
| "is_step_line (Log (Additional i)) = True"
| "is_step_line (Log Blank) = True"
| "is_step_line (Log (SkippingStep t)) = True"
| "is_step_line e = False"

fun is_variable_line :: "event \<Rightarrow> bool" where
  "is_variable_line (Log (Details d)) = True"
| "is_variable_line (Log (InfoBox i)) = True"
| "is_variable_line e = False"

text \<open>
  A stretch of a run in which the operator is asked nothing and every event is of a given
  kind, and a stretch in which every event is of a given kind (the operator may be
  asked).
\<close>

definition quiet :: "(event \<Rightarrow> bool) \<Rightarrow> world \<Rightarrow> world \<Rightarrow> bool" where
  "quiet P w w' \<longleftrightarrow>
     take (length (trace w)) (trace w') = trace w \<and> list_all P (since w w') \<and>
     yes_no w' = yes_no w \<and> typed w' = typed w"

definition extends :: "(event \<Rightarrow> bool) \<Rightarrow> world \<Rightarrow> world \<Rightarrow> bool" where
  "extends P w w' \<longleftrightarrow>
     take (length (trace w)) (trace w') = trace w \<and> list_all P (since w w')"

text \<open>
  The value that a listed project id gives for a variable, as \<^verbatim>\<open>getExistingValue\<close> finds
  it: none when no project has the id.
\<close>

definition held ::
    "node \<Rightarrow> Project list \<Rightarrow> string \<Rightarrow> string \<Rightarrow> world \<Rightarrow> string \<Rightarrow> jsval option" where
  "held n ps vname projectDir w projectId =
     (case find_project ps projectId of
        None \<Rightarrow> None
      | Some project \<Rightarrow> fst (read_project n project vname projectDir w))"

text \<open>
  The value that the store of a listed project id holds for a variable, in the words of
  the specification: the non-empty text that the env file of the project assigns to the
  name of the variable, or that the import command of the project prints for it.
\<close>

definition stored ::
    "node \<Rightarrow> Project list \<Rightarrow> string \<Rightarrow> string \<Rightarrow> world \<Rightarrow> string \<Rightarrow> string option" where
  "stored n ps vname projectDir w projectId =
     (case find_project ps projectId of
        None \<Rightarrow> None
      | Some project \<Rightarrow>
          (case nonempty (envFile project) of
             Some envfile \<Rightarrow>
               (case files w (path_join n [projectDir, envfile]) of
                  None \<Rightarrow> None
                | Some envContent \<Rightarrow>
                    (case map_of (dotenv_parse envContent) vname of
                       Some (Text s) \<Rightarrow> nonempty (Some s)
                     | _ \<Rightarrow> None))
           | None \<Rightarrow>
               (case nonempty (importCommand project) of
                  Some command \<Rightarrow>
                    (case execSync n (js_replace ''{{name}}'' vname command)
                            (convexDir n projectDir) of
                       Inr out \<Rightarrow> nonempty (Some (trim out))
                     | Inl message \<Rightarrow> None)
                | None \<Rightarrow> None)))"

text \<open>
  The default of a variable in the words of the specification: the existing value if one
  was found, else the rendered template if the variable has one, else the static default
  if present, else the empty string.
\<close>

definition default_of :: "node \<Rightarrow> Values \<Rightarrow> EnvVariable \<Rightarrow> jsval option \<Rightarrow> jsval" where
  "default_of n values variable existingValue =
     (case existingValue of
        Some v \<Rightarrow> v
      | None \<Rightarrow>
          (case template variable of
             Some t \<Rightarrow> Text (render_template n values t)
           | None \<Rightarrow> (case defaultValue variable of Some d \<Rightarrow> Text d | None \<Rightarrow> Text [])))"

text \<open>
  The same default, where the template counts only when it is not the empty string.
\<close>

definition default_nonempty_template ::
    "node \<Rightarrow> Values \<Rightarrow> EnvVariable \<Rightarrow> jsval option \<Rightarrow> jsval" where
  "default_nonempty_template n values variable existingValue =
     (case existingValue of
        Some v \<Rightarrow> v
      | None \<Rightarrow>
          (case template variable of
             Some (c # t) \<Rightarrow> Text (render_template n values (c # t))
           | _ \<Rightarrow> (case defaultValue variable of Some d \<Rightarrow> Text d | None \<Rightarrow> Text [])))"

section \<open>An example environment\<close>

text \<open>
  A Node whose \<^verbatim>\<open>path.join\<close> puts a slash between the segments, whose working directory
  is the root (so that a relative path is the path without its first character), whose
  terminal has no colours, in which every command but two fails (the export of \<^verbatim>\<open>abc\<close> as
  \<^verbatim>\<open>TOKEN\<close> prints nothing, the import of \<^verbatim>\<open>KEY\<close> prints a 3 between two spaces), whose
  \<^verbatim>\<open>JSON.parse\<close> knows two texts (a config with an empty list of projects, and the empty
  object), and whose engine prints a built-in function as V8 does.
\<close>

fun slashes :: "string list \<Rightarrow> string" where
  "slashes [] = ''.''"
| "slashes [s] = s"
| "slashes (s # t # ss) = s @ CHR ''/'' # slashes (t # ss)"

definition empty_config_text :: string where
  "empty_config_text = ''{'' @ [CHR 0x22] @ ''projects'' @ [CHR 0x22] @ '': []}''"

definition example_node :: node where
  "example_node =
     \<lparr>json_parse = (\<lambda>s. if s = empty_config_text then Inr (JObj [(''projects'', JArr [])])
                          else if s = ''{}'' then Inr (JObj [])
                          else Inl ''Unexpected token''),
      path_join = slashes,
      path_relative = drop 1,
      execSync = (\<lambda>cmd cwd. if cmd = ''npx convex env set TOKEN abc'' then Inr []
                             else if cmd = ''npx convex env get KEY'' then Inr '' 3 ''
                             else Inl ''Command failed''),
      styled = (\<lambda>l. case l of Skipped vname \<Rightarrow> ''Skipped '' @ vname | _ \<Rightarrow> ''line''),
      member_text = (\<lambda>m. ''function '' @ (if m = ''constructor'' then ''Object'' else m) @
                          ''() { [native code] }''),
      member_error = (\<lambda>m. ''Cannot convert undefined or null to object'')\<rparr>"

definition example_values :: Values where
  "example_values =
     \<lparr>convexUrl = ''https://a.convex.cloud'', convexSiteUrl = ''https://a.convex.site''\<rparr>"

text \<open>
  A world in which every file can be read and written, one in which the writes of one
  path fail, and one in which the reads of one path fail.
\<close>

definition example_world :: "(string \<rightharpoonup> string) \<Rightarrow> world" where
  "example_world fs =
     \<lparr>disk = fs, unreadable = (\<lambda>p. False), write_fails = (\<lambda>p. False), yes_no = [],
      typed = [], trace = []\<rparr>"

definition locked_world :: "string \<Rightarrow> (string \<rightharpoonup> string) \<Rightarrow> world" where
  "locked_world filePath fs = (example_world fs)\<lparr>write_fails := (\<lambda>p. p = filePath)\<rparr>"

definition write_only_world :: "string \<Rightarrow> (string \<rightharpoonup> string) \<Rightarrow> world" where
  "write_only_world filePath fs = (example_world fs)\<lparr>unreadable := (\<lambda>p. p = filePath)\<rparr>"

text \<open>
  Example projects: \<^verbatim>\<open>web\<close>, \<^verbatim>\<open>api\<close> and \<^verbatim>\<open>svc\<close> keep their values in env files, \<^verbatim>\<open>mixed\<close> has
  an env file and both commands, \<^verbatim>\<open>backend\<close> has the commands only, and \<^verbatim>\<open>hushed\<close> keeps
  every line from the console.
\<close>

definition web :: Project where
  "web = \<lparr>id_project = ''web'', envFile = Some ''web.env'', exportCommand = None,
           importCommand = None, ignoreLogs = None\<rparr>"

definition api :: Project where
  "api = \<lparr>id_project = ''api'', envFile = Some ''api.env'', exportCommand = None,
           importCommand = None, ignoreLogs = None\<rparr>"

definition svc :: Project where
  "svc = \<lparr>id_project = ''svc'', envFile = Some ''svc.env'', exportCommand = None,
           importCommand = None, ignoreLogs = None\<rparr>"

definition mixed :: Project where
  "mixed = \<lparr>id_project = ''mixed'', envFile = Some ''mixed.env'',
             exportCommand = Some ''npx convex env set {{name}} {{value}}'',
             importCommand = Some ''npx convex env get {{name}}'', ignoreLogs = None\<rparr>"

definition backend :: Project where
  "backend = \<lparr>id_project = ''backend'', envFile = None,
               exportCommand = Some ''npx convex env set {{name}} {{value}}'',
               importCommand = Some ''npx convex env get {{name}}'', ignoreLogs = None\<rparr>"

definition hushed :: Project where
  "hushed = \<lparr>id_project = ''hushed'', envFile = Some ''hushed.env'', exportCommand = None,
              importCommand = None, ignoreLogs = Some [[]]\<rparr>"

definition example_variable :: "string \<Rightarrow> string list \<Rightarrow> EnvVariable" where
  "example_variable vname ids =
     \<lparr>name = vname, projects = ids, details = ''A value'', required = None,
      defaultValue = None, template = None, info = None\<rparr>"

definition example_config :: "Project list \<Rightarrow> SetupConfig" where
  "example_config ps = \<lparr>introMessage = ''Welcome'', projects_config = ps, steps = []\<rparr>"

text \<open>
  The scenario of the specification: an optional variable \<^verbatim>\<open>TOKEN\<close> of the project \<^verbatim>\<open>svc\<close>,
  in a step.
\<close>

definition token :: EnvVariable where
  "token = \<lparr>name = ''TOKEN'', projects = [''svc''], details = ''The token'',
             required = Some False, defaultValue = None, template = None, info = None\<rparr>"

definition example_step :: "bool option \<Rightarrow> bool option \<Rightarrow> EnvVariable list \<Rightarrow> SetupStep" where
  "example_step req ia vs =
     \<lparr>title = ''Tokens'', instructions = ''Create a token'', variables = vs,
      additionalInstructions = None, required_step = req, description = None,
      interactive = ia\<rparr>"

section \<open>Properties of the Template Resolver\<close>

lemma takeWhile_key:
  assumes "\<forall>c \<in> set key. word_char c"
  shows "takeWhile word_char (key @ CHR ''}'' # rest) = key"
    and "dropWhile word_char (key @ CHR ''}'' # rest) = CHR ''}'' # rest"
  using assms by (simp_all add: takeWhile_append2 dropWhile_append2 word_char_def)

lemma match_placeholder_here:
  assumes "key \<noteq> []" and "\<forall>c \<in> set key. word_char c"
  shows "match_placeholder (''{{'' @ key @ ''}}'' @ post) = Some (key, post)"
  using assms takeWhile_key [of key "CHR ''}'' # post"]
  by (simp add: match_placeholder_def)

lemma match_placeholder_append:
  assumes "match_placeholder s = Some (k, r)"
  shows "match_placeholder (s @ x) = Some (k, r @ x)"
proof -
  from assms obtain t where s: "s = CHR ''{'' # CHR ''{'' # t"
    by (auto simp: match_placeholder_def split: list.splits if_splits)
  with assms have d: "dropWhile word_char t = CHR ''}'' # CHR ''}'' # r"
    and k: "takeWhile word_char t = k" and ne: "k \<noteq> []"
    by (auto simp: match_placeholder_def split: list.splits if_splits)
  from d have "\<exists>c \<in> set t. \<not> word_char c"
    by (metis dropWhile_eq_Nil_conv list.distinct(1))
  then obtain a where a: "a \<in> set t" "\<not> word_char a"
    by blast
  have "takeWhile word_char (t @ x) = takeWhile word_char t"
    and "dropWhile word_char (t @ x) = dropWhile word_char t @ x"
    by (rule takeWhile_append1 [where x = a and P = word_char, OF a],
        rule dropWhile_append1 [where x = a and P = word_char, OF a])
  with s d k ne show ?thesis
    by (simp add: match_placeholder_def)
qed

lemma word_char_braces: "\<not> word_char CHR ''{''" "\<not> word_char CHR ''}''"
  by (simp_all add: word_char_def)

lemma match_placeholder_none_append:
  assumes "match_placeholder (c # cs) = None"
  shows "match_placeholder (c # cs @ CHR ''{'' # CHR ''{'' # y) = None"
proof (cases cs)
  case Nil
  then show ?thesis
    by (simp add: match_placeholder_def word_char_braces split: list.splits)
next
  case (Cons b t)
  show ?thesis
  proof (cases "c = CHR ''{'' \<and> b = CHR ''{''")
    case False
    with Cons show ?thesis
      by (auto simp: match_placeholder_def)
  next
    case True
    let ?x = "CHR ''{'' # CHR ''{'' # y"
    show ?thesis
    proof (cases "\<forall>a \<in> set t. word_char a")
      case all: True
      then have "dropWhile word_char (t @ ?x) = ?x"
        by (simp add: dropWhile_append2 word_char_braces)
      with Cons True show ?thesis
        by (simp add: match_placeholder_def)
    next
      case False
      then obtain a where a: "a \<in> set t" "\<not> word_char a"
        by blast
      have tw: "takeWhile word_char (t @ ?x) = takeWhile word_char t"
        and dw: "dropWhile word_char (t @ ?x) = dropWhile word_char t @ ?x"
        by (rule takeWhile_append1 [where x = a and P = word_char, OF a],
        rule dropWhile_append1 [where x = a and P = word_char, OF a])
      from False have ne: "dropWhile word_char t \<noteq> []"
        by (simp add: dropWhile_eq_Nil_conv)
      from assms Cons True ne tw dw show ?thesis
        by (auto simp: match_placeholder_def split: list.splits if_splits)
    qed
  qed
qed

lemma replace_placeholders_occurrence:
  assumes "key \<noteq> []" and "\<forall>c \<in> set key. word_char c"
  shows "replace_placeholders f (pre @ ''{{'' @ key @ ''}}'' @ post) =
         replace_placeholders f pre @ f key @ replace_placeholders f post"
proof (induction f pre rule: replace_placeholders.induct)
  case (1 f)
  from match_placeholder_here [OF assms, of post] show ?case
    by simp
next
  case (2 f c cs)
  let ?x = "''{{'' @ key @ ''}}'' @ post"
  show ?case
  proof (cases "match_placeholder (c # cs)")
    case None
    from match_placeholder_none_append [OF None, of "key @ ''}}'' @ post"]
    have "match_placeholder (c # cs @ ?x) = None"
      by simp
    with None 2(1) [OF None] show ?thesis
      by simp
  next
    case (Some m)
    obtain k r where m: "m = (k, r)"
      by (cases m)
    from match_placeholder_append [of "c # cs" k r ?x] Some m
    have "match_placeholder (c # cs @ ?x) = Some (k, r @ ?x)"
      by simp
    moreover note 2(2) [OF Some m [symmetric]]
    ultimately show ?thesis
      using Some m by simp
  qed
qed

text \<open>
  C1. The claim: for every template or info string and every placeholder occurrence
  whose key is absent from the Values context, rendering substitutes the token
  \<^verbatim>\<open>[key not set]\<close>, never the empty string, on both rendering paths. The code departs from
  it in two ways. The rendering of a \<^verbatim>\<open>template\<close> default value falls back to the empty
  string: for a Values context that has no \<^verbatim>\<open>foo\<close>, the template \<^verbatim>\<open>{{foo}}\<close> renders to the
  empty string, while the info string \<^verbatim>\<open>{{foo}}\<close> renders to \<^verbatim>\<open>[foo not set]\<close>. And a key
  that the Values context does not have but that every object inherits is read as the
  inherited member, whose text is substituted on both paths: \<^verbatim>\<open>{{constructor}}\<close> renders
  to the text of the function \<^verbatim>\<open>Object\<close>, and \<^verbatim>\<open>{{__proto__}}\<close> to \<^verbatim>\<open>[object Object]\<close>.
\<close>

theorem C1_template_missing_key_counterexample:
  "render_template example_node example_values ''{{foo}}'' = [] \<and>
   render_info example_node example_values ''{{foo}}'' = ''[foo not set]'' \<and>
   render_info example_node example_values ''{{constructor}}'' =
     ''function Object() { [native code] }'' \<and>
   render_template example_node example_values ''{{constructor}}'' =
     ''function Object() { [native code] }'' \<and>
   render_info example_node example_values ''{{__proto__}}'' = ''[object Object]'' \<and>
   render_template example_node example_values ''{{__proto__}}'' = ''[object Object]''"
  by (simp add: render_template_def render_info_def values_at_def or_text_def present_def
      truthy_value_def inherited_def inherited_names_def to_text_def not_set_def
      match_placeholder_def word_char_def example_node_def example_values_def)

text \<open>
  C1, as amended. Whatever text stands before and after it, an occurrence of \<^verbatim>\<open>{{key}}\<close>
  whose key (a non-empty run of word characters) is neither a property of the Values
  context nor one of the names that every object inherits is replaced by the token
  \<^verbatim>\<open>[key not set]\<close> where an info string is rendered, and by the empty string where a
  \<^verbatim>\<open>template\<close> default value is rendered; the text around the occurrence is rendered as it
  is on its own. Both renderings are total functions that return a string: neither
  throws, neither emits \<^verbatim>\<open>undefined\<close>, and the token of the info path is never empty.
\<close>

theorem C1_missing_key_rendering:
  assumes "key \<noteq> []" and "\<forall>c \<in> set key. word_char c"
    and "key \<noteq> ''convexUrl''" and "key \<noteq> ''convexSiteUrl''"
    and "key \<notin> set inherited_names"
  shows "render_info n values (pre @ ''{{'' @ key @ ''}}'' @ post) =
           render_info n values pre @ ''['' @ key @ '' not set]'' @ render_info n values post \<and>
         render_template n values (pre @ ''{{'' @ key @ ''}}'' @ post) =
           render_template n values pre @ render_template n values post \<and>
         ''['' @ key @ '' not set]'' \<noteq> []"
proof -
  from assms(3-5) have absent: "values_at values key = None"
    by (simp add: values_at_def inherited_def)
  have "render_info n values (pre @ ''{{'' @ key @ ''}}'' @ post) =
          render_info n values pre @ ''['' @ key @ '' not set]'' @ render_info n values post"
    using replace_placeholders_occurrence [OF assms(1,2),
        of "\<lambda>key. or_text n (values_at values key) (not_set key)" pre post] absent
    by (simp add: render_info_def or_text_def present_def truthy_value_def not_set_def)
  moreover have "render_template n values (pre @ ''{{'' @ key @ ''}}'' @ post) =
          render_template n values pre @ render_template n values post"
    using replace_placeholders_occurrence [OF assms(1,2),
        of "\<lambda>key. or_text n (values_at values key) []" pre post] absent
    by (simp add: render_template_def or_text_def present_def truthy_value_def)
  ultimately show ?thesis
    by simp
qed

theorem C1_missing_key_rendering_witness:
  "render_info example_node example_values ''Use {{convexUrl}} and {{foo}}.'' =
     ''Use https://a.convex.cloud and [foo not set].'' \<and>
   render_template example_node example_values ''{{convexUrl}}/{{foo}}/x'' =
     ''https://a.convex.cloud//x''"
proof -
  have k: "''foo'' \<noteq> []" "\<forall>c \<in> set ''foo''. word_char c"
    "''foo'' \<noteq> ''convexUrl''" "''foo'' \<noteq> ''convexSiteUrl''" "''foo'' \<notin> set inherited_names"
    by (simp_all add: word_char_def inherited_names_def)
  have pre:
    "render_info example_node example_values ''Use {{convexUrl}} and '' =
       ''Use https://a.convex.cloud and ''"
    "render_info example_node example_values ''.'' = ''.''"
    "render_template example_node example_values ''{{convexUrl}}/'' = ''https://a.convex.cloud/''"
    "render_template example_node example_values ''/x'' = ''/x''"
    by (simp_all add: render_info_def render_template_def values_at_def or_text_def present_def
        truthy_value_def to_text_def not_set_def match_placeholder_def word_char_def
        example_values_def)
  from C1_missing_key_rendering [OF k, of example_node example_values "''Use {{convexUrl}} and ''" "''.''"]
    C1_missing_key_rendering [OF k, of example_node example_values "''{{convexUrl}}/''" "''/x''"] pre
  show ?thesis
    by simp
qed

section \<open>Facts about traces and the adapters\<close>

lemma emit_simps [simp]:
  "files (emit e w) = files w" "trace (emit e w) = trace w @ [e]"
  "yes_no (emit e w) = yes_no w" "typed (emit e w) = typed w"
  "write_fails (emit e w) = write_fails w" "unreadable (emit e w) = unreadable w"
  "disk (emit e w) = disk w"
  by (simp_all add: emit_def files_def fun_eq_iff)

lemma files_update [simp]:
  "files (w\<lparr>yes_no := answers\<rparr>) = files w" "files (w\<lparr>typed := inputs\<rparr>) = files w"
  "files (w\<lparr>trace := events\<rparr>) = files w"
  by (simp_all add: files_def fun_eq_iff)

lemma since_append: "trace w' = trace w @ es \<Longrightarrow> since w w' = es"
  by (simp add: since_def)

lemma quietI:
  "trace w' = trace w @ es \<Longrightarrow> list_all P es \<Longrightarrow> yes_no w' = yes_no w \<Longrightarrow>
   typed w' = typed w \<Longrightarrow> quiet P w w'"
  by (simp add: quiet_def since_def)

lemma quietD:
  assumes "quiet P w w'"
  shows "trace w' = trace w @ since w w'" and "list_all P (since w w')"
    and "yes_no w' = yes_no w" and "typed w' = typed w"
proof -
  from assms have "take (length (trace w)) (trace w') = trace w"
    by (simp add: quiet_def)
  then have "trace w' = trace w @ drop (length (trace w)) (trace w')"
    by (metis append_take_drop_id)
  then show "trace w' = trace w @ since w w'"
    by (simp add: since_def)
qed (use assms in \<open>simp_all add: quiet_def\<close>)

lemma quiet_refl: "quiet P w w"
  by (simp add: quiet_def since_def)

lemma quiet_trans:
  assumes "quiet P w w'" and "quiet P w' w''"
  shows "quiet P w w''"
proof (rule quietI)
  from quietD(1) [OF assms(1)] quietD(1) [OF assms(2)]
  show "trace w'' = trace w @ (since w w' @ since w' w'')"
    by simp
  from quietD(2) [OF assms(1)] quietD(2) [OF assms(2)]
  show "list_all P (since w w' @ since w' w'')"
    by simp
qed (use quietD(3,4) [OF assms(1)] quietD(3,4) [OF assms(2)] in simp_all)

lemma since_trans:
  assumes "quiet P w w'" and "quiet Q w' w''"
  shows "since w w'' = since w w' @ since w' w''"
  using quietD(1) [OF assms(1)] quietD(1) [OF assms(2)]
  by (intro since_append) simp

lemma quiet_mono: "quiet P w w' \<Longrightarrow> (\<And>e. P e \<Longrightarrow> Q e) \<Longrightarrow> quiet Q w w'"
  by (auto simp: quiet_def list_all_iff)

lemma quiet_emit: "P e \<Longrightarrow> quiet P w (emit e w)"
  by (rule quietI [where es = "[e]"]) simp_all

lemma customConsole_log_simps [simp]:
  "files (customConsole_log n config l w) = files w"
  "yes_no (customConsole_log n config l w) = yes_no w"
  "typed (customConsole_log n config l w) = typed w"
  "write_fails (customConsole_log n config l w) = write_fails w"
  "trace (customConsole_log n config l w) =
     trace w @ (if ignored n config l then [] else [Log l])"
  by (simp_all add: customConsole_log_def)

lemma quiet_customConsole_log: "P (Log l) \<Longrightarrow> quiet P w (customConsole_log n config l w)"
  by (rule quietI [where es = "if ignored n config l then [] else [Log l]"]) simp_all


lemma nonempty_Some: "nonempty v = Some s \<longleftrightarrow> v = Some s \<and> s \<noteq> []"
  by (auto simp: nonempty_def truthy_def split: option.splits)

lemma getEnvFileValue_simps [simp]:
  "snd (getEnvFileValue filePath key w) = emit (Read filePath) w"
  "fst (getEnvFileValue filePath key w) =
     (case files w filePath of None \<Rightarrow> None | Some c \<Rightarrow> obj_get (dotenv_parse c) key)"
  by (simp_all add: getEnvFileValue_def split: option.splits)

lemma read_project_file:
  assumes "nonempty (envFile project) = Some f"
  shows "read_project n project vname projectDir w =
           (present (case files w (path_join n [projectDir, f]) of
                        None \<Rightarrow> None
                      | Some c \<Rightarrow> obj_get (dotenv_parse c) vname),
            emit (Read (path_join n [projectDir, f])) w)"
  using assms by (simp add: read_project_def getEnvFileValue_def split: option.splits)

lemma read_project_command:
  assumes "nonempty (envFile project) = None"
    and "nonempty (importCommand project) = Some command"
  shows "read_project n project vname projectDir w =
           (case execSync n (js_replace ''{{name}}'' vname command) (convexDir n projectDir) of
              Inr out \<Rightarrow>
                (present (Some (Text (trim out))),
                 emit (Exec (js_replace ''{{name}}'' vname command) (convexDir n projectDir)) w)
            | Inl message \<Rightarrow>
                (None,
                 emit (LogError (ReadError message))
                   (emit (Exec (js_replace ''{{name}}'' vname command) (convexDir n projectDir)) w)))"
  using assms by (simp add: read_project_def Let_def)

lemma read_project_neither:
  assumes "nonempty (envFile project) = None"
    and "nonempty (importCommand project) = None"
  shows "read_project n project vname projectDir w = (None, w)"
  using assms by (simp add: read_project_def)

lemma read_project_cases:
  obtains (envfile) f where "nonempty (envFile project) = Some f"
  | (command) c where "nonempty (envFile project) = None"
      and "nonempty (importCommand project) = Some c"
  | (neither) "nonempty (envFile project) = None" and "nonempty (importCommand project) = None"
  by (cases "nonempty (envFile project)"; cases "nonempty (importCommand project)") auto

lemma read_project_files [simp]:
  "files (snd (read_project n project vname projectDir w)) = files w"
  "write_fails (snd (read_project n project vname projectDir w)) = write_fails w"
  by (cases project rule: read_project_cases;
      simp add: read_project_file read_project_command read_project_neither split: sum.splits)+

lemma read_project_value:
  "files w1 = files w2 \<Longrightarrow>
   fst (read_project n project vname projectDir w1) =
   fst (read_project n project vname projectDir w2)"
  by (cases project rule: read_project_cases)
    (simp_all add: read_project_file read_project_command read_project_neither split: sum.splits)

lemma present_Some: "present v = Some x \<longleftrightarrow> v = Some x \<and> truthy_value (Some x)"
  by (auto simp: present_def)

lemma read_project_nonempty:
  "fst (read_project n project vname projectDir w) = Some v \<Longrightarrow> truthy_value (Some v)"
  by (cases project rule: read_project_cases)
    (auto simp: read_project_file read_project_command read_project_neither present_Some
      split: sum.splits)

lemma quiet_read_project:
  "quiet is_access w (snd (read_project n project vname projectDir w))"
proof (cases project rule: read_project_cases)
  case (envfile f)
  then show ?thesis
    by (simp add: read_project_file quiet_emit)
next
  case neither
  then show ?thesis
    by (simp add: read_project_neither quiet_refl)
next
  case (command c)
  let ?cwd = "convexDir n projectDir"
  let ?cmd = "js_replace ''{{name}}'' vname c"
  have 1: "quiet is_access w (emit (Exec ?cmd ?cwd) w)"
    by (simp add: quiet_emit)
  have 2: "quiet is_access (emit (Exec ?cmd ?cwd) w)
             (emit (LogError (ReadError m)) (emit (Exec ?cmd ?cwd) w))" for m
    by (simp add: quiet_emit)
  show ?thesis
  proof (cases "execSync n ?cmd ?cwd")
    case (Inl m)
    with command quiet_trans [OF 1 2 [of m]] show ?thesis
      by (simp add: read_project_command)
  next
    case (Inr out)
    with command 1 show ?thesis
      by (simp add: read_project_command)
  qed
qed

lemma held_files:
  "files w1 = files w2 \<Longrightarrow> held n ps vname projectDir w1 = held n ps vname projectDir w2"
  using read_project_value [of w1 w2 n _ vname projectDir]
  by (intro ext) (simp add: held_def split: option.splits)

lemma lookup_projects_files [simp]:
  "files (snd (lookup_projects n ps vname projectDir ids w)) = files w"
proof (induction ids arbitrary: w)
  case Nil
  show ?case by simp
next
  case (Cons i ids)
  show ?case
  proof (cases "find_project ps i")
    case None
    with Cons show ?thesis by simp
  next
    case (Some project)
    obtain v w' where r: "read_project n project vname projectDir w = (v, w')"
      by (cases "read_project n project vname projectDir w")
    with read_project_files(1) [of n project vname projectDir w] have "files w' = files w"
      by simp
    with Some r Cons [of w'] show ?thesis
      by (cases v) simp_all
  qed
qed

lemma lookup_projects_write_fails [simp]:
  "write_fails (snd (lookup_projects n ps vname projectDir ids w)) = write_fails w"
proof (induction ids arbitrary: w)
  case Nil
  show ?case by simp
next
  case (Cons i ids)
  show ?case
  proof (cases "find_project ps i")
    case None
    with Cons show ?thesis by simp
  next
    case (Some project)
    obtain v w' where r: "read_project n project vname projectDir w = (v, w')"
      by (cases "read_project n project vname projectDir w")
    with read_project_files(2) [of n project vname projectDir w]
    have "write_fails w' = write_fails w"
      by simp
    with Some r Cons [of w'] show ?thesis
      by (cases v) simp_all
  qed
qed

lemma quiet_lookup_projects:
  "quiet is_access w (snd (lookup_projects n ps vname projectDir ids w))"
proof (induction ids arbitrary: w)
  case Nil
  show ?case by (simp add: quiet_refl)
next
  case (Cons i ids)
  show ?case
  proof (cases "find_project ps i")
    case None
    with Cons show ?thesis by simp
  next
    case (Some project)
    obtain v w' where r: "read_project n project vname projectDir w = (v, w')"
      by (cases "read_project n project vname projectDir w")
    with quiet_read_project [of w n project vname projectDir] have q: "quiet is_access w w'"
      by simp
    from Some r q quiet_trans [OF q Cons [of w']] show ?thesis
      by (cases v) simp_all
  qed
qed

lemma lookup_projects_none:
  assumes "\<forall>j \<in> set ids. held n ps vname projectDir w j = None"
  shows "fst (lookup_projects n ps vname projectDir ids w) = None"
  using assms
proof (induction ids arbitrary: w)
  case Nil
  show ?case by simp
next
  case (Cons i ids)
  show ?case
  proof (cases "find_project ps i")
    case None
    with Cons show ?thesis by simp
  next
    case (Some project)
    obtain v w' where r: "read_project n project vname projectDir w = (v, w')"
      by (cases "read_project n project vname projectDir w")
    with Some Cons.prems have v: "v = None"
      by (simp add: held_def)
    from r read_project_files(1) [of n project vname projectDir w] have "files w' = files w"
      by simp
    then have "held n ps vname projectDir w' = held n ps vname projectDir w"
      by (rule held_files)
    with Cons.prems have "\<forall>j \<in> set ids. held n ps vname projectDir w' j = None"
      by simp
    with Cons.IH [of w'] Some r v show ?thesis
      by simp
  qed
qed

lemma lookup_projects_first:
  assumes "\<forall>j \<in> set pre. held n ps vname projectDir w j = None"
    and "held n ps vname projectDir w i = Some v"
  shows "lookup_projects n ps vname projectDir (pre @ i # post) w =
           (Some v, snd (lookup_projects n ps vname projectDir (pre @ [i]) w))"
  using assms
proof (induction pre arbitrary: w)
  case Nil
  then obtain project where p: "find_project ps i = Some project"
    and "fst (read_project n project vname projectDir w) = Some v"
    by (auto simp: held_def split: option.splits)
  then obtain w' where "read_project n project vname projectDir w = (Some v, w')"
    by (cases "read_project n project vname projectDir w") simp
  with p show ?case
    by simp
next
  case (Cons j pre)
  show ?case
  proof (cases "find_project ps j")
    case None
    with Cons show ?thesis by simp
  next
    case (Some project)
    obtain x w' where r: "read_project n project vname projectDir w = (x, w')"
      by (cases "read_project n project vname projectDir w")
    with Some Cons.prems(1) have x: "x = None"
      by (simp add: held_def)
    from r read_project_files(1) [of n project vname projectDir w] have "files w' = files w"
      by simp
    then have "held n ps vname projectDir w' = held n ps vname projectDir w"
      by (rule held_files)
    with Cons.prems have "\<forall>j \<in> set pre. held n ps vname projectDir w' j = None"
      and "held n ps vname projectDir w' i = Some v"
      by simp_all
    with Cons.IH [of w'] Some r x show ?thesis
      by simp
  qed
qed

lemma lookup_projects_nonempty:
  "fst (lookup_projects n ps vname projectDir ids w) = Some v \<Longrightarrow> truthy_value (Some v)"
proof (induction ids arbitrary: w)
  case Nil
  then show ?case by simp
next
  case (Cons i ids)
  show ?case
  proof (cases "find_project ps i")
    case None
    with Cons show ?thesis by simp
  next
    case (Some project)
    obtain x w' where r: "read_project n project vname projectDir w = (x, w')"
      by (cases "read_project n project vname projectDir w")
    show ?thesis
    proof (cases x)
      case None
      with Some r Cons.prems Cons.IH [of w'] show ?thesis by simp
    next
      case (Some a)
      with r read_project_nonempty [of n project vname projectDir w a]
      have "truthy_value (Some a)"
        by simp
      with Some r \<open>find_project ps i = Some project\<close> Cons.prems show ?thesis by simp
    qed
  qed
qed

lemma lookup_projects_unknown:
  assumes "find_project ps i = None"
  shows "lookup_projects n ps vname projectDir (pre @ i # post) w =
         lookup_projects n ps vname projectDir (pre @ post) w"
  using assms
proof (induction pre arbitrary: w)
  case Nil
  then show ?case by simp
next
  case (Cons j pre)
  then show ?case
    by (simp split: option.splits prod.splits)
qed

lemma fan_out_unknown:
  assumes "find_project ps i = None"
  shows "fan_out n ps key val projectDir (pre @ i # post) updatedFiles w =
         fan_out n ps key val projectDir (pre @ post) updatedFiles w"
  using assms
proof (induction pre arbitrary: updatedFiles w)
  case Nil
  then show ?case by simp
next
  case (Cons j pre)
  then show ?case
    by (simp split: option.splits outcome.splits)
qed

section \<open>The env-file reader on some files\<close>

lemma parse_KEY_1: "dotenv_parse ''KEY=1'' = [(''KEY'', Text ''1'')]"
  by code_simp

lemma parse_KEY_2: "dotenv_parse ''KEY=2'' = [(''KEY'', Text ''2'')]"
  by code_simp

lemma parse_KEY_empty: "dotenv_parse ''KEY='' = [(''KEY'', Text [])]"
  by code_simp

lemma parse_empty: "dotenv_parse [] = []"
  by code_simp

lemma parse_FOO: "dotenv_parse ''FOO=bar'' = [(''FOO'', Text ''bar'')]"
  by code_simp

lemma parse_FOO_BAZ:
  "dotenv_parse (''FOO=bar'' @ CHR 0x0A # ''BAZ=qux'') =
     [(''FOO'', Text ''bar''), (''BAZ'', Text ''qux'')]"
  by code_simp

lemma parse_proto_empty: "dotenv_parse ''__proto__='' = []"
  by code_simp

lemma parse_constructor_empty: "dotenv_parse ''constructor='' = [(''constructor'', Text [])]"
  by code_simp

lemma parse_quoted: "dotenv_parse (''A='' @ [CHR 0x22] @ ''x#y'' @ [CHR 0x22]) = [(''A'', Text ''x#y'')]"
  by code_simp

lemma parse_unquoted:
  "dotenv_parse (''A=x#y'' @ CHR 0x0A # ''B=1'') = [(''A'', Text ''x''), (''B'', Text ''1'')]"
  by code_simp

section \<open>What the stores hold\<close>

lemma insert_index_set: "set (insert_index k v kvs) = insert (k, v) (set kvs)"
  by (induction kvs) (auto split: if_splits)

lemma obj_set_values: "snd ` set (obj_set kvs k v) \<subseteq> insert v (snd ` set kvs)"
  by (auto simp: obj_set_def insert_index_set split: if_splits)

lemma parse_lines_text:
  "\<forall>x \<in> snd ` set kvs. \<exists>t. x = Text t \<Longrightarrow>
   \<forall>x \<in> snd ` set (parse_lines prev s kvs). \<exists>t. x = Text t"
proof (induction prev s kvs rule: parse_lines.induct)
  case (1 prev s kvs)
  show ?case
  proof (cases "rx_search LINE prev [] s")
    case None
    with 1(2) show ?thesis
      by (subst parse_lines.simps) simp
  next
    case (Some m)
    obtain skipped st where m: "m = (skipped, st)"
      by (cases m)
    have t: "\<forall>x \<in> snd ` set (obj_set kvs (line_key st) (Text (line_value st))). \<exists>t. x = Text t"
      using obj_set_values [of kvs "line_key st" "Text (line_value st)"] 1(2) by blast
    show ?thesis
    proof (cases "length (ahead st) < length s")
      case True
      from 1(1) [OF Some m [symmetric] True t] Some m True show ?thesis
        by (subst parse_lines.simps) simp
    next
      case False
      with t Some m show ?thesis
        by (subst parse_lines.simps) simp
    qed
  qed
qed

lemma dotenv_parse_text: "map_of (dotenv_parse s) k = Some v \<Longrightarrow> \<exists>t. v = Text t"
proof -
  assume "map_of (dotenv_parse s) k = Some v"
  then have v: "v \<in> snd ` set (dotenv_parse s)"
    by (force dest: map_of_SomeD)
  have "\<forall>x \<in> snd ` set ([] :: obj). \<exists>t. x = Text t"
    by simp
  from parse_lines_text [OF this, of None "unify_breaks s"] v show ?thesis
    unfolding dotenv_parse_def by blast
qed

lemma held_stored:
  assumes "vname \<notin> set inherited_names"
  shows "held n ps vname projectDir w j = map_option Text (stored n ps vname projectDir w j)"
proof (cases "find_project ps j")
  case None
  then show ?thesis
    by (simp add: held_def stored_def)
next
  case (Some project)
  show ?thesis
  proof (cases project rule: read_project_cases)
    case (envfile f)
    show ?thesis
    proof (cases "files w (path_join n [projectDir, f])")
      case None
      with Some envfile show ?thesis
        by (simp add: held_def stored_def read_project_file present_def truthy_value_def)
    next
      case (Some c)
      show ?thesis
      proof (cases "map_of (dotenv_parse c) vname")
        case None
        with Some \<open>find_project ps j = Some project\<close> envfile assms show ?thesis
          by (simp add: held_def stored_def read_project_file present_def truthy_value_def
              obj_get_def inherited_def)
      next
        case (Some v)
        with dotenv_parse_text [of c vname v] obtain t where "v = Text t"
          by blast
        with Some \<open>files w (path_join n [projectDir, f]) = Some c\<close>
          \<open>find_project ps j = Some project\<close> envfile show ?thesis
          by (simp add: held_def stored_def read_project_file present_def truthy_value_def
              obj_get_def nonempty_def truthy_def)
      qed
    qed
  next
    case (command c)
    with Some show ?thesis
      by (simp add: held_def stored_def read_project_command present_def truthy_value_def
          nonempty_def truthy_def split: sum.splits)
  next
    case neither
    with Some show ?thesis
      by (simp add: held_def stored_def read_project_neither)
  qed
qed


section \<open>The examples worked out\<close>

lemmas example_defs =
  example_node_def example_world_def locked_world_def write_only_world_def
  example_variable_def example_config_def
  example_values_def web_def api_def svc_def mixed_def backend_def hushed_def

lemmas adapter_defs =
  find_project_def read_project_def getEnvFileValue_def updateEnvFile_def updateProjectValue_def
  getExistingValue_def files_def nonempty_def truthy_def present_def truthy_value_def obj_get_def
  obj_set_def serialize_def to_text_def inherited_def inherited_names_def emit_def
  customConsole_log_def ignored_def shouldIgnoreLog_def persist_def accepted_def report_set_def
  held_def stored_def convexDir_def

section \<open>Existing-value lookup\<close>

text \<open>
  C3. The claim: the lookup goes through the listed project ids in the declared order,
  returns the first value that it finds and stops there, and yields \<^verbatim>\<open>undefined\<close> when no
  listed project holds a value. For a variable whose name is one of the names that every
  object inherits, a project with an env file that can be read always gives a value: the
  env file \<^verbatim>\<open>KEY=1\<close> holds nothing for \<^verbatim>\<open>constructor\<close>, and the lookup of \<^verbatim>\<open>constructor\<close>
  returns the inherited function.
\<close>

theorem C3_inherited_name_counterexample:
  "stored example_node [web] ''constructor'' ''/proj''
     (example_world [''/proj/web.env'' \<mapsto> ''KEY=1'']) ''web'' = None \<and>
   getExistingValue example_node [web] (example_variable ''constructor'' [''web'']) ''/proj''
     (example_world [''/proj/web.env'' \<mapsto> ''KEY=1'']) =
   (Some (Member ''constructor''),
    ((example_world [''/proj/web.env'' \<mapsto> ''KEY=1''])\<lparr>trace := [Read ''/proj/web.env'']\<rparr>))"
  by (simp add: example_defs adapter_defs parse_KEY_1)

text \<open>
  C3, as amended. For a variable that lists its consumer projects, \<^verbatim>\<open>getExistingValue\<close>
  goes through the ids in the declared order and returns the first value that it finds,
  and stops there: when the ids before \<^term>\<open>i\<close> give no value and \<^term>\<open>i\<close> gives
  \<^term>\<open>v\<close>, the result is \<^term>\<open>v\<close> whatever the ids after \<^term>\<open>i\<close> hold, and the
  world is the one after the lookup in the ids up to \<^term>\<open>i\<close> (the later projects are
  not consulted). Unless the name of the variable is one of the names that every object
  inherits, what a listed id gives is what its store holds (the text that is not empty
  of its env file or of its import command), and when no listed id holds a value the
  result is \<^verbatim>\<open>undefined\<close>. The lookup returns in every case, raises nothing, and leaves the
  files as they are.
\<close>

theorem C3_first_value_wins:
  "(projects variable = pre @ i # post \<and>
    (\<forall>j \<in> set pre. held n ps (name variable) projectDir w j = None) \<and>
    held n ps (name variable) projectDir w i = Some v \<longrightarrow>
      getExistingValue n ps variable projectDir w =
        (Some v, snd (lookup_projects n ps (name variable) projectDir (pre @ [i]) w))) \<and>
   (name variable \<notin> set inherited_names \<longrightarrow>
      held n ps (name variable) projectDir w j =
        map_option Text (stored n ps (name variable) projectDir w j)) \<and>
   (name variable \<notin> set inherited_names \<and>
    (\<forall>j \<in> set (projects variable). stored n ps (name variable) projectDir w j = None) \<longrightarrow>
      fst (getExistingValue n ps variable projectDir w) = None) \<and>
   files (snd (getExistingValue n ps variable projectDir w)) = files w"
proof (intro conjI impI)
  assume "projects variable = pre @ i # post \<and>
    (\<forall>j \<in> set pre. held n ps (name variable) projectDir w j = None) \<and>
    held n ps (name variable) projectDir w i = Some v"
  with lookup_projects_first [of pre n ps "name variable" projectDir w i v post]
  show "getExistingValue n ps variable projectDir w =
          (Some v, snd (lookup_projects n ps (name variable) projectDir (pre @ [i]) w))"
    by (simp add: getExistingValue_def)
next
  assume "name variable \<notin> set inherited_names"
  then show "held n ps (name variable) projectDir w j =
          map_option Text (stored n ps (name variable) projectDir w j)"
    by (rule held_stored)
next
  assume a: "name variable \<notin> set inherited_names \<and>
    (\<forall>j \<in> set (projects variable). stored n ps (name variable) projectDir w j = None)"
  then have "\<forall>j \<in> set (projects variable). held n ps (name variable) projectDir w j = None"
    by (simp add: held_stored)
  then show "fst (getExistingValue n ps variable projectDir w) = None"
    unfolding getExistingValue_def by (rule lookup_projects_none)
next
  show "files (snd (getExistingValue n ps variable projectDir w)) = files w"
    by (simp add: getExistingValue_def)
qed

theorem C3_first_value_wins_witness:
  "getExistingValue example_node [web, api] (example_variable ''KEY'' [''web'', ''api'']) ''/proj''
     (example_world [''/proj/web.env'' \<mapsto> ''KEY=1'', ''/proj/api.env'' \<mapsto> ''KEY=2'']) =
   (Some (Text ''1''),
    (example_world [''/proj/web.env'' \<mapsto> ''KEY=1'', ''/proj/api.env'' \<mapsto> ''KEY=2''])
      \<lparr>trace := [Read ''/proj/web.env'']\<rparr>) \<and>
   stored example_node [web, api] ''KEY'' ''/proj''
     (example_world [''/proj/web.env'' \<mapsto> ''KEY=1'', ''/proj/api.env'' \<mapsto> ''KEY=2'']) ''api'' =
   Some ''2'' \<and>
   getExistingValue example_node [web, backend, api]
     (example_variable ''KEY'' [''web'', ''backend'', ''api'']) ''/proj''
     (example_world [''/proj/api.env'' \<mapsto> ''KEY=2'']) =
   (Some (Text ''3''),
    (example_world [''/proj/api.env'' \<mapsto> ''KEY=2''])
      \<lparr>trace := [Read ''/proj/web.env'',
                 Exec ''npx convex env get KEY'' ''/proj/packages/backend'']\<rparr>) \<and>
   fst (getExistingValue example_node [web, api] (example_variable ''OTHER'' [''web'', ''api''])
     ''/proj''
     (example_world [''/proj/web.env'' \<mapsto> ''KEY=1'', ''/proj/api.env'' \<mapsto> ''KEY=2''])) = None"
proof -
  let ?w = "example_world [''/proj/web.env'' \<mapsto> ''KEY=1'', ''/proj/api.env'' \<mapsto> ''KEY=2'']"
  let ?w2 = "example_world [''/proj/api.env'' \<mapsto> ''KEY=2'']"
  let ?v = "example_variable ''KEY'' [''web'', ''api'']"
  let ?v2 = "example_variable ''KEY'' [''web'', ''backend'', ''api'']"
  let ?o = "example_variable ''OTHER'' [''web'', ''api'']"
  have cmd: "js_replace ''{{name}}'' ''KEY'' ''npx convex env get {{name}}'' =
      ''npx convex env get KEY''"
    by (simp add: js_replace_def)
  have trimmed: "trim '' 3 '' = ''3''"
    by (simp add: trim_def js_space_def)
  have web: "held example_node [web, api] (name ?v) ''/proj'' ?w ''web'' = Some (Text ''1'')"
    and api: "stored example_node [web, api] ''KEY'' ''/proj'' ?w ''api'' = Some ''2''"
    by (simp_all add: example_defs adapter_defs parse_KEY_1 parse_KEY_2)
  have ids: "projects ?v = [] @ ''web'' # [''api'']"
    by (simp add: example_variable_def)
  have web2: "\<forall>j \<in> set [''web'']. held example_node [web, backend, api] (name ?v2) ''/proj'' ?w2 j =
      None"
    and backend: "held example_node [web, backend, api] (name ?v2) ''/proj'' ?w2 ''backend'' =
      Some (Text ''3'')"
    by (simp_all add: example_defs adapter_defs cmd trimmed Let_def)
  have ids2: "projects ?v2 = [''web''] @ ''backend'' # [''api'']"
    by (simp add: example_variable_def)
  have other: "name ?o \<notin> set inherited_names"
    "\<forall>j \<in> set (projects ?o). stored example_node [web, api] (name ?o) ''/proj'' ?w j = None"
    by (simp_all add: example_defs adapter_defs parse_KEY_1 parse_KEY_2)
  from C3_first_value_wins [of ?v "[]" "''web''" "[''api'']" example_node "[web, api]" "''/proj''"
      ?w "Text ''1''"] ids web
  have "getExistingValue example_node [web, api] ?v ''/proj'' ?w =
          (Some (Text ''1''),
           snd (lookup_projects example_node [web, api] (name ?v) ''/proj'' ([] @ [''web'']) ?w))"
    by simp
  moreover from C3_first_value_wins [of ?v2 "[''web'']" "''backend''" "[''api'']" example_node
      "[web, backend, api]" "''/proj''" ?w2 "Text ''3''"] ids2 web2 backend
  have "getExistingValue example_node [web, backend, api] ?v2 ''/proj'' ?w2 =
          (Some (Text ''3''),
           snd (lookup_projects example_node [web, backend, api] (name ?v2) ''/proj''
                  ([''web''] @ [''backend'']) ?w2))"
    by blast
  moreover from C3_first_value_wins [of ?o _ _ _ example_node "[web, api]" "''/proj''" ?w] other
  have "fst (getExistingValue example_node [web, api] ?o ''/proj'' ?w) = None"
    by blast
  ultimately show ?thesis
    using api by (simp add: example_defs adapter_defs parse_KEY_1 cmd trimmed Let_def)
qed

section \<open>Writes\<close>

lemma updateEnvFile_ok:
  "\<not> write_fails w filePath \<Longrightarrow>
   updateEnvFile n filePath key val w =
     Ok () ((emit (Write filePath
                     (serialize n (obj_set (dotenv_parse
                        (case files w filePath of None \<Rightarrow> [] | Some c \<Rightarrow> c)) key val)))
               (emit (Read filePath) w))
            \<lparr>disk := (disk w)(filePath \<mapsto>
                serialize n (obj_set (dotenv_parse
                  (case files w filePath of None \<Rightarrow> [] | Some c \<Rightarrow> c)) key val))\<rparr>)"
  by (simp add: updateEnvFile_def Let_def)

lemma updateEnvFile_thrown:
  "write_fails w filePath \<Longrightarrow>
   updateEnvFile n filePath key val w =
     Stop Thrown (emit (Write filePath
                     (serialize n (obj_set (dotenv_parse
                        (case files w filePath of None \<Rightarrow> [] | Some c \<Rightarrow> c)) key val)))
               (emit (Read filePath) w))"
  by (simp add: updateEnvFile_def Let_def)

lemma updateEnvFile_trace:
  "trace (world_of (updateEnvFile n filePath key val w)) =
     trace w @ [Read filePath,
       Write filePath
         (serialize n (obj_set (dotenv_parse (case files w filePath of None \<Rightarrow> [] | Some c \<Rightarrow> c))
            key val))]"
  by (simp add: updateEnvFile_def Let_def)

lemma updateEnvFile_disk:
  "disk (world_of (updateEnvFile n filePath key val w)) =
     (if write_fails w filePath then disk w
      else (disk w)(filePath \<mapsto>
        serialize n (obj_set (dotenv_parse (case files w filePath of None \<Rightarrow> [] | Some c \<Rightarrow> c))
          key val)))"
  by (simp add: updateEnvFile_def Let_def)

lemma updateEnvFile_files:
  "files (world_of (updateEnvFile n filePath key val w)) =
     (if write_fails w filePath then files w
      else (files w)(filePath :=
        if unreadable w filePath then None
        else Some (serialize n (obj_set
               (dotenv_parse (case files w filePath of None \<Rightarrow> [] | Some c \<Rightarrow> c)) key val))))"
  by (simp add: updateEnvFile_def Let_def files_def fun_eq_iff)

lemma updateEnvFile_world [simp]:
  "write_fails (world_of (updateEnvFile n filePath key val w)) = write_fails w"
  "unreadable (world_of (updateEnvFile n filePath key val w)) = unreadable w"
  "yes_no (world_of (updateEnvFile n filePath key val w)) = yes_no w"
  "typed (world_of (updateEnvFile n filePath key val w)) = typed w"
  by (simp_all add: updateEnvFile_def Let_def)

lemma updateEnvFile_stop:
  "updateEnvFile n filePath key val w = Stop f w' \<Longrightarrow> f = Thrown \<and> write_fails w filePath"
  by (simp add: updateEnvFile_def Let_def split: if_splits)

lemma quiet_updateEnvFile: "quiet is_access w (world_of (updateEnvFile n filePath key val w))"
  by (rule quietI [OF updateEnvFile_trace]) simp_all

lemma updateProjectValue_file:
  assumes "nonempty (envFile project) = Some f"
  shows "updateProjectValue n project key val projectDir w =
           (case updateEnvFile n (path_join n [projectDir, f]) key val w of
              Stop e w' \<Rightarrow> Stop e w'
            | Ok u w' \<Rightarrow> Ok (Some (path_relative n (path_join n [projectDir, f]))) w')"
    and "world_of (updateProjectValue n project key val projectDir w) =
           world_of (updateEnvFile n (path_join n [projectDir, f]) key val w)"
  using assms by (simp_all add: updateProjectValue_def split: outcome.splits)

lemma updateProjectValue_cases:
  obtains (envfile) f where "nonempty (envFile project) = Some f"
  | (command) c where "nonempty (envFile project) = None"
      and "nonempty (exportCommand project) = Some c"
  | (neither) "nonempty (envFile project) = None" and "nonempty (exportCommand project) = None"
  by (cases "nonempty (envFile project)"; cases "nonempty (exportCommand project)") auto

lemma updateProjectValue_command:
  assumes "nonempty (envFile project) = None" and "nonempty (exportCommand project) = Some c"
  shows "updateProjectValue n project key val projectDir w =
           (case replace_value n ''{{value}}'' val (js_replace ''{{name}}'' key c) of
              Inl message \<Rightarrow> Ok None (export_failed key project message w)
            | Inr cmd \<Rightarrow>
                (case execSync n cmd (convexDir n projectDir) of
                   Inr out \<Rightarrow> Ok None (emit (Exec cmd (convexDir n projectDir)) w)
                 | Inl message \<Rightarrow>
                     Ok None (export_failed key project message
                                (emit (Exec cmd (convexDir n projectDir)) w))))"
  using assms by (simp add: updateProjectValue_def)

lemma quiet_export_failed: "quiet is_access w (export_failed key project message w)"
proof -
  have 1: "quiet is_access w (emit (LogError (ExportFailed key (id_project project))) w)"
    by (simp add: quiet_emit)
  have 2: "quiet is_access (emit (LogError (ExportFailed key (id_project project))) w)
      (export_failed key project message w)"
    by (simp add: export_failed_def quiet_emit)
  from quiet_trans [OF 1 2] show ?thesis .
qed

lemma export_failed_world [simp]:
  "files (export_failed key project message w) = files w"
  "write_fails (export_failed key project message w) = write_fails w"
  by (simp_all add: export_failed_def)

lemma quiet_updateProjectValue:
  "quiet is_access w (world_of (updateProjectValue n project key val projectDir w))"
proof (cases project rule: updateProjectValue_cases)
  case (envfile f)
  then show ?thesis
    by (simp add: updateProjectValue_file(2) quiet_updateEnvFile)
next
  case neither
  then show ?thesis
    by (simp add: updateProjectValue_def quiet_refl)
next
  case (command c)
  show ?thesis
  proof (cases "replace_value n ''{{value}}'' val (js_replace ''{{name}}'' key c)")
    case (Inl m)
    with command show ?thesis
      by (simp add: updateProjectValue_command quiet_export_failed)
  next
    case (Inr cmd)
    let ?w1 = "emit (Exec cmd (convexDir n projectDir)) w"
    have 1: "quiet is_access w ?w1"
      by (simp add: quiet_emit)
    show ?thesis
    proof (cases "execSync n cmd (convexDir n projectDir)")
      case (Inl m)
      with command Inr quiet_trans [OF 1 quiet_export_failed [of ?w1 key project m]]
      show ?thesis
        by (simp add: updateProjectValue_command)
    next
      case (Inr out)
      with command \<open>replace_value n ''{{value}}'' val (js_replace ''{{name}}'' key c) = Inr cmd\<close> 1
      show ?thesis
        by (simp add: updateProjectValue_command)
    qed
  qed
qed

lemma updateProjectValue_write_fails [simp]:
  "write_fails (world_of (updateProjectValue n project key val projectDir w)) = write_fails w"
proof (cases project rule: updateProjectValue_cases)
  case (envfile f)
  then show ?thesis
    by (simp add: updateProjectValue_file(2))
next
  case neither
  then show ?thesis
    by (simp add: updateProjectValue_def)
next
  case (command c)
  then show ?thesis
    by (simp add: updateProjectValue_command split: sum.splits)
qed

lemma updateProjectValue_stop:
  assumes "updateProjectValue n project key val projectDir w = Stop e w'"
  shows "e = Thrown \<and>
         (\<exists>f. nonempty (envFile project) = Some f \<and> write_fails w (path_join n [projectDir, f]))"
proof (cases project rule: updateProjectValue_cases)
  case (envfile f)
  with assms updateEnvFile_stop [of n "path_join n [projectDir, f]" key val w] show ?thesis
    by (auto simp: updateProjectValue_file(1) split: outcome.splits)
next
  case neither
  with assms show ?thesis
    by (simp add: updateProjectValue_def)
next
  case (command c)
  with assms show ?thesis
    by (simp add: updateProjectValue_command split: sum.splits)
qed

section \<open>Strategy of a project with an env file\<close>

text \<open>
  C8. The claim: for a project that has an env-file path and command templates, the env
  file is read and written and the commands are never executed. The write of the env
  file is outside every \<^verbatim>\<open>try\<close>, so it can throw: in a world in which the write of
  \<^verbatim>\<open>/proj/mixed.env\<close> fails, the write side of the project \<^verbatim>\<open>mixed\<close> ends with the error
  that was thrown, and the env file is as it was, not written.
\<close>

theorem C8_write_throws_counterexample:
  "updateProjectValue example_node mixed ''KEY'' (Text ''2'') ''/proj''
     (locked_world ''/proj/mixed.env'' [''/proj/mixed.env'' \<mapsto> ''KEY=1'']) =
   Stop Thrown
     ((locked_world ''/proj/mixed.env'' [''/proj/mixed.env'' \<mapsto> ''KEY=1''])
         \<lparr>trace := [Read ''/proj/mixed.env'', Write ''/proj/mixed.env'' ''KEY=2'']\<rparr>)"
  by (simp add: example_defs adapter_defs parse_KEY_1)

text \<open>
  C8, as amended. For a project that has an env-file path (a string that is not empty),
  whatever commands it has as well, the read side and the write side use the file only:
  the read is the read of the env file; the write is \<^verbatim>\<open>updateEnvFile\<close> on it, which reads
  the file and calls the write of the new content, and the file has the new content and
  the path is returned unless that write throws, in which case the file is as it was and
  the error ends the run; the events of either side are those calls on that file, with
  no command among them.
\<close>

theorem C8_file_strategy_exclusive:
  assumes "nonempty (envFile project) = Some f"
  shows "read_project n project vname projectDir w =
           (present (fst (getEnvFileValue (path_join n [projectDir, f]) vname w)),
            emit (Read (path_join n [projectDir, f])) w) \<and>
         since w (snd (read_project n project vname projectDir w)) =
           [Read (path_join n [projectDir, f])] \<and>
         (\<not> write_fails w (path_join n [projectDir, f]) \<longrightarrow>
            (\<exists>w'. updateProjectValue n project key val projectDir w =
                     Ok (Some (path_relative n (path_join n [projectDir, f]))) w' \<and>
                   disk w' = (disk w)(path_join n [projectDir, f] \<mapsto>
                     serialize n (obj_set
                       (dotenv_parse (case files w (path_join n [projectDir, f]) of
                                        None \<Rightarrow> [] | Some c \<Rightarrow> c)) key val)))) \<and>
         (write_fails w (path_join n [projectDir, f]) \<longrightarrow>
            (\<exists>w'. updateProjectValue n project key val projectDir w = Stop Thrown w' \<and>
                   disk w' = disk w)) \<and>
         since w (world_of (updateProjectValue n project key val projectDir w)) =
           [Read (path_join n [projectDir, f]),
            Write (path_join n [projectDir, f])
              (serialize n (obj_set
                 (dotenv_parse (case files w (path_join n [projectDir, f]) of
                                  None \<Rightarrow> [] | Some c \<Rightarrow> c)) key val))] \<and>
         \<not> list_ex is_exec (since w (snd (read_project n project vname projectDir w))) \<and>
         \<not> list_ex is_exec (since w (world_of (updateProjectValue n project key val projectDir w)))"
proof -
  let ?p = "path_join n [projectDir, f]"
  have r: "read_project n project vname projectDir w =
           (present (fst (getEnvFileValue ?p vname w)), emit (Read ?p) w)"
    by (simp add: read_project_file [OF assms])
  have rs: "since w (snd (read_project n project vname projectDir w)) = [Read ?p]"
    unfolding r by (simp add: since_append [of _ w "[Read ?p]"])
  have ok: "\<exists>w'. updateProjectValue n project key val projectDir w =
                     Ok (Some (path_relative n ?p)) w' \<and>
                   disk w' = (disk w)(?p \<mapsto>
                     serialize n (obj_set
                       (dotenv_parse (case files w ?p of None \<Rightarrow> [] | Some c \<Rightarrow> c)) key val))"
    if "\<not> write_fails w ?p"
    using that by (simp add: updateProjectValue_file(1) [OF assms] updateEnvFile_ok)
  have thrown: "\<exists>w'. updateProjectValue n project key val projectDir w = Stop Thrown w' \<and>
                   disk w' = disk w"
    if "write_fails w ?p"
    using that by (simp add: updateProjectValue_file(1) [OF assms] updateEnvFile_thrown)
  have ws: "since w (world_of (updateProjectValue n project key val projectDir w)) =
           [Read ?p, Write ?p (serialize n (obj_set
                 (dotenv_parse (case files w ?p of None \<Rightarrow> [] | Some c \<Rightarrow> c)) key val))]"
    unfolding updateProjectValue_file(2) [OF assms] by (rule since_append [OF updateEnvFile_trace])
  from r rs ok thrown ws show ?thesis
    by simp
qed

theorem C8_file_strategy_exclusive_witness:
  "truthy (envFile mixed) \<and> truthy (importCommand mixed) \<and> truthy (exportCommand mixed) \<and>
   read_project example_node mixed ''KEY'' ''/proj''
     (example_world [''/proj/mixed.env'' \<mapsto> ''KEY=1'']) =
   (Some (Text ''1''),
    ((example_world [''/proj/mixed.env'' \<mapsto> ''KEY=1''])\<lparr>trace := [Read ''/proj/mixed.env'']\<rparr>)) \<and>
   updateProjectValue example_node mixed ''KEY'' (Text ''2'') ''/proj''
     (example_world [''/proj/mixed.env'' \<mapsto> ''KEY=1'']) =
   Ok (Some ''proj/mixed.env'')
    ((example_world [''/proj/mixed.env'' \<mapsto> ''KEY=2''])\<lparr>trace := [Read ''/proj/mixed.env'',
        Write ''/proj/mixed.env'' ''KEY=2'']\<rparr>) \<and>
   since (locked_world ''/proj/mixed.env'' Map.empty)
     (world_of (updateProjectValue example_node mixed ''KEY'' (Text ''2'') ''/proj''
        (locked_world ''/proj/mixed.env'' Map.empty))) =
   [Read ''/proj/mixed.env'', Write ''/proj/mixed.env'' ''KEY=2'']"
proof -
  let ?w = "example_world [''/proj/mixed.env'' \<mapsto> ''KEY=1'']"
  let ?l = "locked_world ''/proj/mixed.env'' Map.empty"
  have f: "nonempty (envFile mixed) = Some ''mixed.env''"
    by (simp add: mixed_def nonempty_def truthy_def)
  have free: "\<not> write_fails ?w (path_join example_node [''/proj'', ''mixed.env''])"
    and locked: "write_fails ?l (path_join example_node [''/proj'', ''mixed.env''])"
    by (simp_all add: example_defs)
  note a = C8_file_strategy_exclusive [OF f, of example_node "''KEY''" "''/proj''" ?w "''KEY''"
      "Text ''2''"]
  note b = C8_file_strategy_exclusive [OF f, of example_node "''KEY''" "''/proj''" ?l "''KEY''"
      "Text ''2''"]
  from a free have "read_project example_node mixed ''KEY'' ''/proj'' ?w =
      (present (fst (getEnvFileValue (path_join example_node [''/proj'', ''mixed.env'']) ''KEY'' ?w)),
       emit (Read (path_join example_node [''/proj'', ''mixed.env''])) ?w)"
    and "\<exists>w'. updateProjectValue example_node mixed ''KEY'' (Text ''2'') ''/proj'' ?w =
               Ok (Some (path_relative example_node
                           (path_join example_node [''/proj'', ''mixed.env'']))) w'"
    by blast+
  moreover from b locked have "since ?l
      (world_of (updateProjectValue example_node mixed ''KEY'' (Text ''2'') ''/proj'' ?l)) =
      [Read (path_join example_node [''/proj'', ''mixed.env'']),
       Write (path_join example_node [''/proj'', ''mixed.env''])
         (serialize example_node (obj_set
            (dotenv_parse (case files ?l (path_join example_node [''/proj'', ''mixed.env'']) of
                             None \<Rightarrow> [] | Some c \<Rightarrow> c)) ''KEY'' (Text ''2'')))]"
    by blast
  ultimately show ?thesis
    by (simp add: example_defs adapter_defs parse_KEY_1 parse_empty array_index_def digit_def)
qed

section \<open>Project ids without a project\<close>

text \<open>
  C9. A project id that a variable lists and that no project of the config has is
  passed over by the existing-value lookup and by the persistence fan-out: both behave
  as they do for the list without that id, in their result and in every event (so no
  error is raised and nothing is read or written for it), and the ids after it are
  processed as they are without it.
\<close>

theorem C9_unknown_project_skipped:
  assumes "find_project (projects_config config) i = None"
    and "projects variable = pre @ i # post"
  shows "getExistingValue n (projects_config config) variable projectDir w =
           getExistingValue n (projects_config config)
             (variable\<lparr>projects := pre @ post\<rparr>) projectDir w \<and>
         persist n config projectDir variable val w =
           persist n config projectDir (variable\<lparr>projects := pre @ post\<rparr>) val w \<and>
         lookup_projects n (projects_config config) vname projectDir (i # post) w =
           lookup_projects n (projects_config config) vname projectDir post w \<and>
         fan_out n (projects_config config) key val projectDir (i # post) updatedFiles w =
           fan_out n (projects_config config) key val projectDir post updatedFiles w"
  using assms lookup_projects_unknown [OF assms(1), of n "name variable" projectDir pre post w]
    fan_out_unknown [OF assms(1), of n "name variable" val projectDir pre post "[]" w]
  by (simp add: getExistingValue_def persist_def accepted_def cong: outcome.case_cong)

theorem C9_unknown_project_skipped_witness:
  "find_project (projects_config (example_config [web])) ''ghost'' = None \<and>
   getExistingValue example_node (projects_config (example_config [web]))
     (example_variable ''KEY'' [''ghost'', ''web'']) ''/proj''
     (example_world [''/proj/web.env'' \<mapsto> ''KEY=1'']) =
   (Some (Text ''1''),
    ((example_world [''/proj/web.env'' \<mapsto> ''KEY=1''])\<lparr>trace := [Read ''/proj/web.env'']\<rparr>)) \<and>
   persist example_node (example_config [web]) ''/proj''
     (example_variable ''KEY'' [''ghost'', ''web'']) (Text ''2'')
     (example_world [''/proj/web.env'' \<mapsto> ''KEY=1'']) =
   Ok ()
    ((example_world [''/proj/web.env'' \<mapsto> ''KEY=2''])\<lparr>trace := [Read ''/proj/web.env'',
        Write ''/proj/web.env'' ''KEY=2'', Log (SetIn ''KEY''), Log (SetFile ''proj/web.env'')]\<rparr>)"
proof -
  let ?c = "example_config [web]"
  let ?v = "example_variable ''KEY'' [''ghost'', ''web'']"
  let ?w = "example_world [''/proj/web.env'' \<mapsto> ''KEY=1'']"
  have g: "find_project (projects_config ?c) ''ghost'' = None"
    by (simp add: example_defs find_project_def)
  have ids: "projects ?v = [] @ ''ghost'' # [''web'']"
    by (simp add: example_defs)
  have v: "?v\<lparr>projects := [] @ [''web'']\<rparr> = example_variable ''KEY'' [''web'']"
    by (simp add: example_defs)
  from C9_unknown_project_skipped [OF g ids, of example_node "''/proj''" ?w "Text ''2''"]
  have "getExistingValue example_node (projects_config ?c) ?v ''/proj'' ?w =
          getExistingValue example_node (projects_config ?c) (example_variable ''KEY'' [''web''])
            ''/proj'' ?w"
    and "persist example_node ?c ''/proj'' ?v (Text ''2'') ?w =
          persist example_node ?c ''/proj'' (example_variable ''KEY'' [''web'']) (Text ''2'') ?w"
    unfolding v by simp_all
  with g show ?thesis
    by (simp add: example_defs adapter_defs parse_KEY_1)
qed

section \<open>An empty binding in an env file\<close>

text \<open>
  C10. The claim: when the env file of a file-backed project has a line \<^verbatim>\<open>KEY=\<close> for the
  key that is looked up, the lookup takes the key as absent there, goes on with the
  later projects and, failing those, falls through to the default. Two things stand in
  the way, both for a key that every object inherits. A line \<^verbatim>\<open>__proto__=\<close> binds nothing
  (the assignment runs the inherited setter), so the read of \<^verbatim>\<open>__proto__\<close> yields
  \<^verbatim>\<open>Object.prototype\<close>, which the lookup returns. And after a line \<^verbatim>\<open>constructor=\<close>, which
  is taken as absent, a later project whose env file says nothing of \<^verbatim>\<open>constructor\<close> yields
  the inherited function, which the lookup returns instead of falling through.
\<close>

theorem C10_inherited_name_counterexample:
  "getExistingValue example_node [web] (example_variable ''__proto__'' [''web'']) ''/proj''
     (example_world [''/proj/web.env'' \<mapsto> ''__proto__='']) =
   (Some (Member ''__proto__''),
    ((example_world [''/proj/web.env'' \<mapsto> ''__proto__=''])\<lparr>trace := [Read ''/proj/web.env'']\<rparr>)) \<and>
   stored example_node [web, api] ''constructor'' ''/proj''
     (example_world [''/proj/web.env'' \<mapsto> ''constructor='', ''/proj/api.env'' \<mapsto> ''KEY=2''])
     ''api'' = None \<and>
   getExistingValue example_node [web, api] (example_variable ''constructor'' [''web'', ''api''])
     ''/proj''
     (example_world [''/proj/web.env'' \<mapsto> ''constructor='', ''/proj/api.env'' \<mapsto> ''KEY=2'']) =
   (Some (Member ''constructor''),
    ((example_world [''/proj/web.env'' \<mapsto> ''constructor='', ''/proj/api.env'' \<mapsto> ''KEY=2''])
        \<lparr>trace := [Read ''/proj/web.env'', Read ''/proj/api.env'']\<rparr>))"
  by (simp add: example_defs adapter_defs parse_proto_empty parse_constructor_empty parse_KEY_2)

text \<open>
  C10, as amended. When the env file of a file-backed project binds the key of the
  variable to the empty string (a line \<^verbatim>\<open>KEY=\<close> does, for every key but \<^verbatim>\<open>__proto__\<close>), the
  lookup takes the key as absent there: the project gives no value, and the lookup goes
  on with the ids listed after it. When the stores of those hold no value for the key,
  and the key is not one of the names that every object inherits, the result is
  \<^verbatim>\<open>undefined\<close> and the default is computed from the template or the static default.
\<close>

theorem C10_empty_binding_is_absent:
  assumes "find_project ps i = Some project"
    and "nonempty (envFile project) = Some f"
    and "files w (path_join n [projectDir, f]) = Some content"
    and "map_of (dotenv_parse content) (name variable) = Some (Text [])"
  shows "held n ps (name variable) projectDir w i = None \<and>
         lookup_projects n ps (name variable) projectDir (i # rest) w =
           lookup_projects n ps (name variable) projectDir rest
             (emit (Read (path_join n [projectDir, f])) w) \<and>
         (name variable \<notin> set inherited_names \<and>
          (\<forall>j \<in> set rest. stored n ps (name variable) projectDir w j = None) \<and>
          projects variable = i # rest \<longrightarrow>
            fst (getExistingValue n ps variable projectDir w) = None \<and>
            computed_default n values variable
                (fst (getExistingValue n ps variable projectDir w)) =
              (case nonempty (template variable) of
                 Some t \<Rightarrow> Some (Text (render_template n values t))
               | None \<Rightarrow> map_option Text (defaultValue variable)))"
proof -
  have r: "read_project n project (name variable) projectDir w =
             (None, emit (Read (path_join n [projectDir, f])) w)"
    using assms by (simp add: read_project_file obj_get_def present_def truthy_value_def)
  with assms(1) have h: "held n ps (name variable) projectDir w i = None"
    by (simp add: held_def)
  have "fst (getExistingValue n ps variable projectDir w) = None"
    if "name variable \<notin> set inherited_names"
      and "\<forall>j \<in> set rest. stored n ps (name variable) projectDir w j = None"
      and "projects variable = i # rest"
    unfolding getExistingValue_def
    by (rule lookup_projects_none) (use that h in \<open>simp add: held_stored\<close>)
  with h r assms(1) show ?thesis
    by (simp add: computed_default_def or_value_def truthy_value_def)
qed

theorem C10_empty_binding_is_absent_witness:
  "map_of (dotenv_parse ''KEY='') ''KEY'' = Some (Text []) \<and>
   held example_node [web, api] ''KEY'' ''/proj''
     (example_world [''/proj/web.env'' \<mapsto> ''KEY='', ''/proj/api.env'' \<mapsto> ''KEY=2'']) ''web'' = None \<and>
   getExistingValue example_node [web, api] (example_variable ''KEY'' [''web'', ''api'']) ''/proj''
     (example_world [''/proj/web.env'' \<mapsto> ''KEY='', ''/proj/api.env'' \<mapsto> ''KEY=2'']) =
   (Some (Text ''2''),
    ((example_world [''/proj/web.env'' \<mapsto> ''KEY='', ''/proj/api.env'' \<mapsto> ''KEY=2''])
        \<lparr>trace := [Read ''/proj/web.env'', Read ''/proj/api.env'']\<rparr>)) \<and>
   fst (getExistingValue example_node [web] (example_variable ''KEY'' [''web'']) ''/proj''
     (example_world [''/proj/web.env'' \<mapsto> ''KEY=''])) = None"
proof -
  let ?w = "example_world [''/proj/web.env'' \<mapsto> ''KEY='', ''/proj/api.env'' \<mapsto> ''KEY=2'']"
  let ?w1 = "example_world [''/proj/web.env'' \<mapsto> ''KEY='']"
  let ?v = "example_variable ''KEY'' [''web'', ''api'']"
  let ?v1 = "example_variable ''KEY'' [''web'']"
  have p: "find_project [web, api] ''web'' = Some web" "find_project [web] ''web'' = Some web"
    and f: "nonempty (envFile web) = Some ''web.env''"
    and c: "files ?w (path_join example_node [''/proj'', ''web.env'']) = Some ''KEY=''"
      "files ?w1 (path_join example_node [''/proj'', ''web.env'']) = Some ''KEY=''"
    and k: "map_of (dotenv_parse ''KEY='') (name ?v) = Some (Text [])"
      "map_of (dotenv_parse ''KEY='') (name ?v1) = Some (Text [])"
    and i: "name ?v1 \<notin> set inherited_names"
    by (simp_all add: example_defs adapter_defs parse_KEY_empty)
  note a = C10_empty_binding_is_absent [OF p(1) f c(1) k(1), of "[''api'']" example_values]
  note b = C10_empty_binding_is_absent [OF p(2) f c(2) k(2), of "[]" example_values]
  from a have "held example_node [web, api] ''KEY'' ''/proj'' ?w ''web'' = None"
    and "lookup_projects example_node [web, api] ''KEY'' ''/proj'' [''web'', ''api''] ?w =
         lookup_projects example_node [web, api] ''KEY'' ''/proj'' [''api'']
           (emit (Read (path_join example_node [''/proj'', ''web.env''])) ?w)"
    by (simp_all add: example_variable_def)
  moreover from b i have "fst (getExistingValue example_node [web] ?v1 ''/proj'' ?w1) = None"
    by (simp add: example_variable_def)
  ultimately show ?thesis
    by (simp add: example_defs adapter_defs parse_KEY_empty parse_KEY_2)
qed

section \<open>The file-backed adapter\<close>

lemma map_of_replace:
  "map_of (map (\<lambda>(k', v'). if k' = k then (k', v) else (k', v')) kvs) x =
     (if x = k then (if k \<in> fst ` set kvs then Some v else None) else map_of kvs x)"
  by (induction kvs) force+

lemma map_of_insert_index:
  "k \<notin> fst ` set kvs \<Longrightarrow>
   map_of (insert_index k v kvs) x = (if x = k then Some v else map_of kvs x)"
  by (induction kvs) auto

lemma obj_get_set_other:
  "x \<noteq> k \<Longrightarrow> obj_get (obj_set kvs k v) x = obj_get kvs x"
proof (cases "k \<in> fst ` set kvs")
  case True
  moreover assume "x \<noteq> k"
  ultimately show ?thesis
    by (simp add: obj_get_def obj_set_def map_of_replace)
next
  case False
  moreover assume "x \<noteq> k"
  ultimately show ?thesis
    by (cases "array_index k")
      (auto simp: obj_get_def obj_set_def map_of_insert_index map_add_def split: option.splits)
qed

lemma obj_get_set_same:
  "k \<noteq> ''__proto__'' \<Longrightarrow> obj_get (obj_set kvs k v) k = Some v"
proof (cases "k \<in> fst ` set kvs")
  case True
  then show ?thesis
    by (simp add: obj_get_def obj_set_def map_of_replace)
next
  case False
  moreover assume "k \<noteq> ''__proto__''"
  moreover from False have "map_of kvs k = None"
    by (simp add: map_of_eq_None_iff)
  ultimately show ?thesis
    by (cases "array_index k")
      (auto simp: obj_get_def obj_set_def map_of_insert_index map_add_def split: option.splits)
qed

lemma obj_set_new:
  "k \<notin> fst ` set kvs \<Longrightarrow> \<not> array_index k \<Longrightarrow> k \<noteq> ''__proto__'' \<Longrightarrow>
   obj_set kvs k v = kvs @ [(k, v)]"
  by (simp add: obj_set_def)

lemma not_index_FOO_BAZ: "\<not> array_index ''FOO''" "\<not> array_index ''BAZ''"
  by (simp_all add: array_index_def digit_def)




section \<open>Loading the config: what is checked\<close>

text \<open>
  C4. The claim: a config whose \<^verbatim>\<open>projects\<close> is absent or not a sequence is a fatal load
  error, and a loaded config has a project list that is a sequence and not empty.
  \<^verbatim>\<open>loadConfig\<close> checks \<^verbatim>\<open>Array.isArray(config.projects)\<close> and nothing else: the config
  \<^verbatim>\<open>{"projects": []}\<close> is loaded, and its project list is empty.
\<close>

theorem C4_empty_projects_counterexample:
  "loadConfig example_node ''/proj/setup-config.json''
     (example_world [''/proj/setup-config.json'' \<mapsto> empty_config_text]) =
   Ok (JObj [(''projects'', JArr [])])
     ((example_world [''/proj/setup-config.json'' \<mapsto> empty_config_text])
         \<lparr>trace := [Log (LoadingConfig ''/proj/setup-config.json''),
         Read ''/proj/setup-config.json'']\<rparr>) \<and>
   config_projects (JObj [(''projects'', JArr [])]) = Some (JArr [])"
  by (simp add: loadConfig_def example_node_def example_world_def emit_def files_def
      config_projects_def isArray_def)

text \<open>
  C4, as amended. When the config file is read and parsed and its \<^verbatim>\<open>projects\<close> is absent
  or not a sequence, \<^verbatim>\<open>loadConfig\<close> reports the error and the process exits with status
  1; a config that \<^verbatim>\<open>loadConfig\<close> returns has a project list that is a sequence (which
  may be empty); and \<^verbatim>\<open>loadConfig\<close> fails in no other way than by that exit.
\<close>

theorem C4_projects_must_be_array:
  "(\<forall>content config.
      files w configPath = Some content \<and> json_parse n content = Inr config \<and>
      \<not> isArray (config_projects config) \<longrightarrow>
      loadConfig n configPath w =
        Stop Exit1
          (emit (LogError (LoadFailed (if config = JNull then NullConfig else MissingProjects)))
            (emit (Read configPath) (emit (Log (LoadingConfig configPath)) w)))) \<and>
   (\<forall>config w'. loadConfig n configPath w = Ok config w' \<longrightarrow>
      (\<exists>ps. config_projects config = Some (JArr ps))) \<and>
   (\<forall>f w'. loadConfig n configPath w = Stop f w' \<longrightarrow> f = Exit1)"
proof (intro conjI allI impI)
  fix content config
  assume "files w configPath = Some content \<and> json_parse n content = Inr config \<and>
      \<not> isArray (config_projects config)"
  then show "loadConfig n configPath w =
        Stop Exit1
          (emit (LogError (LoadFailed (if config = JNull then NullConfig else MissingProjects)))
            (emit (Read configPath) (emit (Log (LoadingConfig configPath)) w)))"
    by (cases "config = JNull") (simp_all add: loadConfig_def load_failed_def Let_def)
next
  fix config w'
  assume ok: "loadConfig n configPath w = Ok config w'"
  then obtain content where c: "files w configPath = Some content"
    by (cases "files w configPath") (simp_all add: loadConfig_def load_failed_def Let_def)
  with ok have p: "json_parse n content = Inr config"
    by (cases "json_parse n content")
      (simp_all add: loadConfig_def load_failed_def Let_def split: if_splits)
  with ok c have "isArray (config_projects config)"
    by (simp add: loadConfig_def load_failed_def Let_def split: if_splits)
  then show "\<exists>ps. config_projects config = Some (JArr ps)"
    by (simp add: isArray_def split: option.splits json.splits)
next
  fix f w'
  assume "loadConfig n configPath w = Stop f w'"
  then show "f = Exit1"
    by (simp add: loadConfig_def load_failed_def Let_def split: option.splits sum.splits if_splits)
qed

theorem C4_projects_must_be_array_witness:
  "loadConfig example_node ''/proj/setup-config.json''
     (example_world [''/proj/setup-config.json'' \<mapsto> ''{}'']) =
   Stop Exit1
     ((example_world [''/proj/setup-config.json'' \<mapsto> ''{}''])
         \<lparr>trace := [Log (LoadingConfig ''/proj/setup-config.json''),
         Read ''/proj/setup-config.json'', LogError (LoadFailed MissingProjects)]\<rparr>)"
proof -
  let ?w = "example_world [''/proj/setup-config.json'' \<mapsto> ''{}'']"
  have "files ?w ''/proj/setup-config.json'' = Some ''{}''"
    and "json_parse example_node ''{}'' = Inr (JObj [])"
    and "\<not> isArray (config_projects (JObj []))"
    by (simp_all add: example_world_def example_node_def empty_config_text_def isArray_def
        config_projects_def files_def)
  with C4_projects_must_be_array [of ?w "''/proj/setup-config.json''" example_node]
  have "loadConfig example_node ''/proj/setup-config.json'' ?w =
      Stop Exit1 (emit (LogError (LoadFailed (if JObj [] = JNull then NullConfig else MissingProjects)))
        (emit (Read ''/proj/setup-config.json'') (emit (Log (LoadingConfig ''/proj/setup-config.json'')) ?w)))"
    by blast
  then show ?thesis
    by (simp add: example_world_def emit_def)
qed

section \<open>Facts about the fan-out and its report\<close>

lemma extendsI:
  "trace w' = trace w @ es \<Longrightarrow> list_all P es \<Longrightarrow> extends P w w'"
  by (simp add: extends_def since_def)

lemma extendsD:
  assumes "extends P w w'"
  shows "trace w' = trace w @ since w w'" and "list_all P (since w w')"
proof -
  from assms have "take (length (trace w)) (trace w') = trace w"
    by (simp add: extends_def)
  then have "trace w' = trace w @ drop (length (trace w)) (trace w')"
    by (metis append_take_drop_id)
  then show "trace w' = trace w @ since w w'"
    by (simp add: since_def)
qed (use assms in \<open>simp add: extends_def\<close>)

lemma quiet_extends: "quiet P w w' \<Longrightarrow> extends P w w'"
  by (simp add: quiet_def extends_def)

lemma extends_refl: "extends P w w"
  by (simp add: extends_def since_def)

lemma extends_trans:
  assumes "extends P w w'" and "extends P w' w''"
  shows "extends P w w''"
proof (rule extendsI)
  from extendsD(1) [OF assms(1)] extendsD(1) [OF assms(2)]
  show "trace w'' = trace w @ (since w w' @ since w' w'')"
    by simp
  from extendsD(2) [OF assms(1)] extendsD(2) [OF assms(2)]
  show "list_all P (since w w' @ since w' w'')"
    by simp
qed

lemma extends_emit: "P e \<Longrightarrow> extends P w (emit e w)"
  by (rule extendsI [where es = "[e]"]) simp_all


lemma fan_out_step:
  assumes "find_project ps j = Some p"
  shows "fan_out n ps key val projectDir (j # ids) updatedFiles w =
           (case updateProjectValue n p key val projectDir w of
              Stop e w' \<Rightarrow> Stop e w'
            | Ok u w' \<Rightarrow>
                fan_out n ps key val projectDir ids
                  (case nonempty u of Some f \<Rightarrow> updatedFiles @ [f] | None \<Rightarrow> updatedFiles) w')"
  using assms by simp

lemma quiet_fan_out:
  "quiet is_access w (world_of (fan_out n ps key val projectDir ids updatedFiles w))"
proof (induction ids arbitrary: updatedFiles w)
  case Nil
  show ?case by (simp add: quiet_refl)
next
  case (Cons i ids)
  show ?case
  proof (cases "find_project ps i")
    case None
    with Cons show ?thesis by simp
  next
    case (Some project)
    note q = quiet_updateProjectValue [of w n project key val projectDir]
    show ?thesis
    proof (cases "updateProjectValue n project key val projectDir w")
      case (Stop e w')
      with q Some show ?thesis
        by simp
    next
      case (Ok u w')
      with q have "quiet is_access w w'"
        by simp
      from quiet_trans [OF this Cons] Some Ok show ?thesis
        by simp
    qed
  qed
qed

lemma fan_out_write_fails [simp]:
  "write_fails (world_of (fan_out n ps key val projectDir ids updatedFiles w)) = write_fails w"
proof (induction ids arbitrary: updatedFiles w)
  case Nil
  show ?case by simp
next
  case (Cons i ids)
  show ?case
  proof (cases "find_project ps i")
    case None
    with Cons show ?thesis by simp
  next
    case (Some project)
    note q = updateProjectValue_write_fails [of n project key val projectDir w]
    show ?thesis
    proof (cases "updateProjectValue n project key val projectDir w")
      case (Stop e w')
      with q Some show ?thesis
        by simp
    next
      case (Ok u w')
      with q Cons [of _ w'] Some show ?thesis
        by simp
    qed
  qed
qed

lemma fan_out_stop:
  assumes "fan_out n ps key val projectDir ids updatedFiles w = Stop e w'"
  shows "e = Thrown \<and>
         (\<exists>i project f. i \<in> set ids \<and> find_project ps i = Some project \<and>
            nonempty (envFile project) = Some f \<and> write_fails w (path_join n [projectDir, f]))"
  using assms
proof (induction ids arbitrary: updatedFiles w)
  case Nil
  then show ?case by simp
next
  case (Cons i ids)
  show ?case
  proof (cases "find_project ps i")
    case None
    with Cons.prems have "fan_out n ps key val projectDir ids updatedFiles w = Stop e w'"
      by simp
    from Cons.IH [OF this] show ?thesis
      by auto
  next
    case (Some project)
    show ?thesis
    proof (cases "updateProjectValue n project key val projectDir w")
      case (Stop e1 w1)
      with Cons.prems Some have "e1 = e"
        by simp
      with updateProjectValue_stop [OF Stop] Some show ?thesis
        by auto
    next
      case (Ok u w1)
      with Cons.prems Some
      have "fan_out n ps key val projectDir ids
              (case nonempty u of Some f \<Rightarrow> updatedFiles @ [f] | None \<Rightarrow> updatedFiles) w1 =
            Stop e w'"
        by simp
      from Cons.IH [OF this] updateProjectValue_write_fails [of n project key val projectDir w] Ok
      show ?thesis
        by auto
    qed
  qed
qed

lemma fan_out_ok:
  assumes "\<forall>i project f. i \<in> set ids \<and> find_project ps i = Some project \<and>
             nonempty (envFile project) = Some f \<longrightarrow>
             \<not> write_fails w (path_join n [projectDir, f])"
  shows "\<exists>fs w'. fan_out n ps key val projectDir ids updatedFiles w = Ok fs w'"
proof (cases "fan_out n ps key val projectDir ids updatedFiles w")
  case (Ok fs w')
  then show ?thesis
    by simp
next
  case (Stop e w')
  from fan_out_stop [OF Stop] assms show ?thesis
    by blast
qed

lemma fan_out_writes:
  assumes "fan_out n ps key val projectDir ids updatedFiles w = Ok fs w'"
    and "i \<in> set ids" and "find_project ps i = Some project"
    and "nonempty (envFile project) = Some f"
  shows "\<exists>content. Write (path_join n [projectDir, f]) content \<in> set (since w w')"
  using assms(1,2)
proof (induction ids arbitrary: updatedFiles w)
  case Nil
  then show ?case by simp
next
  case (Cons j ids)
  show ?case
  proof (cases "find_project ps j")
    case None
    with Cons.prems assms(3) have "i \<in> set ids"
      and "fan_out n ps key val projectDir ids updatedFiles w = Ok fs w'"
      by auto
    from Cons.IH [OF this(2,1)] show ?thesis .
  next
    case (Some p)
    from Cons.prems(1) Some obtain u w1
      where u: "updateProjectValue n p key val projectDir w = Ok u w1"
        and r: "fan_out n ps key val projectDir ids
                  (case nonempty u of Some f \<Rightarrow> updatedFiles @ [f] | None \<Rightarrow> updatedFiles) w1 =
                Ok fs w'"
      by (cases "updateProjectValue n p key val projectDir w") simp_all
    from u quiet_updateProjectValue [of w n p key val projectDir] have q1: "quiet is_access w w1"
      by simp
    from r quiet_fan_out [of w1 n ps key val projectDir ids] have q2: "quiet is_access w1 w'"
      by (metis world_of.simps(1))
    have s: "since w w' = since w w1 @ since w1 w'"
      by (rule since_trans [OF q1 q2])
    show ?thesis
    proof (cases "i = j")
      case True
      with Some assms(3) have "p = project"
        by simp
      with u updateProjectValue_file(2) [OF assms(4), of n key val projectDir w]
      have "w1 = world_of (updateEnvFile n (path_join n [projectDir, f]) key val w)"
        by simp
      with since_append [OF updateEnvFile_trace [of n "path_join n [projectDir, f]" key val w]]
      have "\<exists>content. Write (path_join n [projectDir, f]) content \<in> set (since w w1)"
        by simp
      with s show ?thesis
        by auto
    next
      case False
      with Cons.prems have "i \<in> set ids"
        by simp
      from Cons.IH [OF r this] s show ?thesis
        by auto
    qed
  qed
qed

lemma fan_out_execs:
  assumes "fan_out n ps key val projectDir ids updatedFiles w = Ok fs w'"
    and "i \<in> set ids" and "find_project ps i = Some project"
    and "nonempty (envFile project) = None" and "nonempty (exportCommand project) = Some c"
    and "replace_value n ''{{value}}'' val (js_replace ''{{name}}'' key c) = Inr cmd"
  shows "Exec cmd (convexDir n projectDir) \<in> set (since w w')"
  using assms(1,2)
proof (induction ids arbitrary: updatedFiles w)
  case Nil
  then show ?case by simp
next
  case (Cons j ids)
  show ?case
  proof (cases "find_project ps j")
    case None
    with Cons.prems assms(3) have "i \<in> set ids"
      and "fan_out n ps key val projectDir ids updatedFiles w = Ok fs w'"
      by auto
    from Cons.IH [OF this(2,1)] show ?thesis .
  next
    case (Some p)
    from Cons.prems(1) Some obtain u w1
      where u: "updateProjectValue n p key val projectDir w = Ok u w1"
        and r: "fan_out n ps key val projectDir ids
                  (case nonempty u of Some f \<Rightarrow> updatedFiles @ [f] | None \<Rightarrow> updatedFiles) w1 =
                Ok fs w'"
      by (cases "updateProjectValue n p key val projectDir w") simp_all
    from u quiet_updateProjectValue [of w n p key val projectDir] have q1: "quiet is_access w w1"
      by simp
    from r quiet_fan_out [of w1 n ps key val projectDir ids] have q2: "quiet is_access w1 w'"
      by (metis world_of.simps(1))
    have s: "since w w' = since w w1 @ since w1 w'"
      by (rule since_trans [OF q1 q2])
    show ?thesis
    proof (cases "i = j")
      case True
      with Some assms(3) have "p = project"
        by simp
      with u assms(4-6) have "trace w1 = trace w @ [Exec cmd (convexDir n projectDir)] \<or>
          (\<exists>m. trace w1 = trace w @ [Exec cmd (convexDir n projectDir),
             LogError (ExportFailed key (id_project project)), LogError (ExportError m)])"
        by (auto simp: updateProjectValue_command export_failed_def split: sum.splits)
      then have "Exec cmd (convexDir n projectDir) \<in> set (since w w1)"
        by (auto simp: since_def)
      with s show ?thesis
        by auto
    next
      case False
      with Cons.prems have "i \<in> set ids"
        by simp
      from Cons.IH [OF r this] s show ?thesis
        by auto
    qed
  qed
qed

lemma quiet_foldl_log:
  assumes "\<And>x. P (Log (l x))"
  shows "quiet P w (foldl (\<lambda>w x. customConsole_log n config (l x) w) w xs)"
proof (induction xs arbitrary: w)
  case Nil
  show ?case by (simp add: quiet_refl)
next
  case (Cons x xs)
  from quiet_trans [OF quiet_customConsole_log [of P "l x" w n config] Cons] assms
  show ?case
    by simp
qed

lemma foldl_log_files [simp]:
  "files (foldl (\<lambda>w x. customConsole_log n config (l x) w) w xs) = files w"
  "write_fails (foldl (\<lambda>w x. customConsole_log n config (l x) w) w xs) = write_fails w"
  by (induction xs arbitrary: w) simp_all

lemma quiet_report_set: "quiet is_set_report w (report_set n config vname updatedFiles w)"
proof (cases "updatedFiles = []")
  case True
  then show ?thesis
    by (simp add: report_set_def quiet_customConsole_log)
next
  case False
  have "quiet is_set_report w (customConsole_log n config (SetIn vname) w)"
    by (simp add: quiet_customConsole_log)
  from quiet_trans [OF this quiet_foldl_log [of is_set_report SetFile]] False show ?thesis
    by (simp add: report_set_def)
qed

lemma report_set_files [simp]:
  "files (report_set n config vname updatedFiles w) = files w"
  "write_fails (report_set n config vname updatedFiles w) = write_fails w"
  by (simp_all add: report_set_def)

section \<open>Acceptance policy\<close>

lemma accepted_iff: "accepted variable val \<longleftrightarrow> val \<noteq> Text [] \<or> required variable \<noteq> Some False"
  by (cases val) (simp_all add: accepted_def truthy_value_def)

lemma persist_skip:
  "\<not> accepted variable val \<Longrightarrow>
   persist n config projectDir variable val w =
     Ok () (customConsole_log n config (Skipped (name variable)) w)"
  by (simp add: persist_def)

lemma persist_accept:
  "accepted variable val \<Longrightarrow>
   persist n config projectDir variable val w =
     (case fan_out n (projects_config config) (name variable) val projectDir
             (projects variable) [] w of
        Stop f w' \<Rightarrow> Stop f w'
      | Ok updatedFiles w' \<Rightarrow> Ok () (report_set n config (name variable) updatedFiles w'))"
  by (simp add: persist_def)

lemma not_prompt_kinds:
  "is_access e \<Longrightarrow> \<not> is_prompt e" "is_set_report e \<Longrightarrow> \<not> is_prompt e"
  "is_variable_line e \<Longrightarrow> \<not> is_prompt e" "is_step_line e \<Longrightarrow> \<not> is_prompt e"
  by (cases e rule: is_prompt.cases; simp)+

lemma persist_events:
  "quiet (\<lambda>e. is_access e \<or> is_set_report e \<or> e = Log (Skipped (name variable))) w
     (world_of (persist n config projectDir variable val w))"
proof (cases "accepted variable val")
  case False
  then show ?thesis
    by (simp add: persist_skip quiet_customConsole_log)
next
  case True
  let ?P = "\<lambda>e. is_access e \<or> is_set_report e \<or> e = Log (Skipped (name variable))"
  let ?fo = "fan_out n (projects_config config) (name variable) val projectDir
               (projects variable) [] w"
  have 1: "quiet ?P w (world_of ?fo)"
    by (rule quiet_mono [OF quiet_fan_out]) simp
  show ?thesis
  proof (cases ?fo)
    case (Stop f w')
    with 1 True show ?thesis
      by (simp add: persist_accept)
  next
    case (Ok fs w')
    have "quiet ?P w' (report_set n config (name variable) fs w')"
      by (rule quiet_mono [OF quiet_report_set]) simp
    with 1 Ok True show ?thesis
      by (simp add: persist_accept quiet_trans)
  qed
qed

lemma quiet_persist:
  "quiet (\<lambda>e. \<not> is_prompt e) w (world_of (persist n config projectDir variable val w))"
  by (rule quiet_mono [OF persist_events]) (auto simp: not_prompt_kinds)

lemma persist_write_fails [simp]:
  "write_fails (world_of (persist n config projectDir variable val w)) = write_fails w"
proof (cases "accepted variable val")
  case False
  then show ?thesis
    by (simp add: persist_skip)
next
  case True
  let ?fo = "fan_out n (projects_config config) (name variable) val projectDir
               (projects variable) [] w"
  from fan_out_write_fails [of n "projects_config config" "name variable" val projectDir
      "projects variable" "[]" w] True
  show ?thesis
    by (cases ?fo) (simp_all add: persist_accept)
qed

lemma persist_stop:
  assumes "persist n config projectDir variable val w = Stop f w'"
  shows "f = Thrown \<and>
         (\<exists>i project e. i \<in> set (projects variable) \<and>
            find_project (projects_config config) i = Some project \<and>
            nonempty (envFile project) = Some e \<and> write_fails w (path_join n [projectDir, e]))"
proof (cases "accepted variable val")
  case False
  with assms show ?thesis
    by (simp add: persist_skip)
next
  case True
  with assms have "fan_out n (projects_config config) (name variable) val projectDir
      (projects variable) [] w = Stop f w'"
    by (simp add: persist_accept split: outcome.splits)
  then show ?thesis
    by (rule fan_out_stop)
qed

lemma persist_ok:
  assumes "\<forall>i project f. i \<in> set (projects variable) \<and>
             find_project (projects_config config) i = Some project \<and>
             nonempty (envFile project) = Some f \<longrightarrow>
             \<not> write_fails w (path_join n [projectDir, f])"
  shows "\<exists>w'. persist n config projectDir variable val w = Ok () w'"
proof (cases "persist n config projectDir variable val w")
  case (Ok u w')
  then show ?thesis
    by simp
next
  case (Stop f w')
  from persist_stop [OF Stop] assms show ?thesis
    by blast
qed




section \<open>Non-interactive steps\<close>

lemma quiet_announce_variable:
  "quiet is_variable_line w (announce_variable n config values variable w)"
proof (cases "info variable")
  case None
  then show ?thesis
    by (simp add: announce_variable_def quiet_customConsole_log)
next
  case (Some items)
  have "quiet is_variable_line w (customConsole_log n config (Details (details variable)) w)"
    by (simp add: quiet_customConsole_log)
  from quiet_trans [OF this
      quiet_foldl_log [of is_variable_line "\<lambda>infoItem. InfoBox (render_info n values infoItem)"]]
    Some
  show ?thesis
    by (simp add: announce_variable_def)
qed

lemma announce_variable_files [simp]:
  "files (announce_variable n config values variable w) = files w"
  "write_fails (announce_variable n config values variable w) = write_fails w"
  by (simp_all add: announce_variable_def
      foldl_log_files [of n config "\<lambda>infoItem. InfoBox (render_info n values infoItem)"]
      split: option.splits)

lemma quiet_getExistingValue:
  "quiet is_access w (snd (getExistingValue n ps variable projectDir w))"
  unfolding getExistingValue_def by (rule quiet_lookup_projects)

lemma getExistingValue_nonempty:
  "fst (getExistingValue n ps variable projectDir w) = Some v \<Longrightarrow> truthy_value (Some v)"
  unfolding getExistingValue_def by (rule lookup_projects_nonempty)

lemma getExistingValue_write_fails [simp]:
  "write_fails (snd (getExistingValue n ps variable projectDir w)) = write_fails w"
  by (simp add: getExistingValue_def)

lemma default_computed:
  assumes "existingValue = None \<or> truthy_value existingValue"
  shows "or_empty (computed_default n values variable existingValue) =
           default_nonempty_template n values variable existingValue"
proof (cases existingValue)
  case (Some v)
  with assms show ?thesis
    by (simp add: computed_default_def default_nonempty_template_def or_value_def or_empty_def
        present_def)
next
  case None
  show ?thesis
  proof (cases "template variable")
    case no_template: None
    with None show ?thesis
      by (cases "defaultValue variable")
        (simp_all add: computed_default_def default_nonempty_template_def or_value_def
          or_empty_def present_def truthy_value_def nonempty_def truthy_def)
  next
    case (Some t)
    with None show ?thesis
      by (cases t; cases "defaultValue variable")
        (simp_all add: computed_default_def default_nonempty_template_def or_value_def
          or_empty_def present_def truthy_value_def nonempty_def truthy_def)
  qed
qed

lemma default_of_nonempty_template:
  "template variable \<noteq> Some [] \<Longrightarrow>
   default_nonempty_template n values variable existingValue =
     default_of n values variable existingValue"
  by (simp add: default_nonempty_template_def default_of_def split: option.splits list.splits)

lemma process_variable_non_interactive:
  assumes "interactive step = Some False"
  shows "process_variable n config projectDir values step variable w =
           persist n config projectDir variable
             (default_nonempty_template n values variable
               (fst (getExistingValue n (projects_config config) variable projectDir
                       (announce_variable n config values variable w))))
             (snd (getExistingValue n (projects_config config) variable projectDir
                     (announce_variable n config values variable w)))"
    and "quiet (\<lambda>e. \<not> is_prompt e) w
           (world_of (process_variable n config projectDir values step variable w))"
proof -
  let ?a = "announce_variable n config values variable w"
  let ?ex = "getExistingValue n (projects_config config) variable projectDir ?a"
  let ?v = "default_nonempty_template n values variable (fst ?ex)"
  have "fst ?ex = None \<or> truthy_value (fst ?ex)"
    using getExistingValue_nonempty [of n "projects_config config" variable projectDir ?a]
    by (cases "fst ?ex") simp_all
  then have d: "or_empty (computed_default n values variable (fst ?ex)) = ?v"
    by (rule default_computed)
  with assms show p: "process_variable n config projectDir values step variable w =
      persist n config projectDir variable ?v (snd ?ex)"
    by (cases ?ex) (simp add: process_variable_def determine_value_def)
  have "quiet (\<lambda>e. \<not> is_prompt e) w ?a"
    by (rule quiet_mono [OF quiet_announce_variable]) (rule not_prompt_kinds)
  moreover have "quiet (\<lambda>e. \<not> is_prompt e) ?a (snd ?ex)"
    by (rule quiet_mono [OF quiet_getExistingValue]) (rule not_prompt_kinds)
  moreover have "quiet (\<lambda>e. \<not> is_prompt e) (snd ?ex)
      (world_of (persist n config projectDir variable ?v (snd ?ex)))"
    by (rule quiet_persist)
  ultimately show "quiet (\<lambda>e. \<not> is_prompt e) w
      (world_of (process_variable n config projectDir values step variable w))"
    unfolding p by (auto intro: quiet_trans)
qed

text \<open>
  C6. The claim: in a step with \<^verbatim>\<open>interactive === false\<close> the value of a variable is the
  existing value if one was found, else the rendered template if the variable has one,
  else the static default if present, else the empty string. The code takes the template
  only when it is truthy: a variable that has the empty string as its template and
  \<^verbatim>\<open>fallback\<close> as its static default gets the value \<^verbatim>\<open>fallback\<close>, which is written to the env
  file, where the claim gives the rendered template, the empty string.
\<close>

theorem C6_empty_template_counterexample:
  "default_of example_node example_values
     (token\<lparr>template := Some [], defaultValue := Some ''fallback''\<rparr>) None = Text [] \<and>
   process_variable example_node (example_config [svc]) ''/proj'' example_values
     (example_step None (Some False) [])
     (token\<lparr>template := Some [], defaultValue := Some ''fallback''\<rparr>)
     (example_world Map.empty) =
   Ok ()
     ((example_world [''/proj/svc.env'' \<mapsto> ''TOKEN=fallback''])
         \<lparr>trace := [Log (Details ''The token''), Read ''/proj/svc.env'', Read ''/proj/svc.env'',
         Write ''/proj/svc.env'' ''TOKEN=fallback'', Log (SetIn ''TOKEN''),
         Log (SetFile ''proj/svc.env'')]\<rparr>)"
proof -
  have not_index: "\<not> array_index ''TOKEN''"
    by (simp add: array_index_def digit_def)
  have "render_template example_node example_values [] = []"
    by (simp add: render_template_def)
  then show ?thesis
    by (simp add: default_of_def process_variable_def announce_variable_def determine_value_def
        computed_default_def or_value_def or_empty_def example_step_def
        example_defs adapter_defs token_def parse_empty not_index Let_def)
qed

text \<open>
  C6, as amended. For a variable of a step with \<^verbatim>\<open>interactive === false\<close>, the operator is
  asked nothing (no prompt is among the events, and no answer of the operator is
  consumed), and the value that is handed to the acceptance policy is the computed
  default: the existing value when the lookup found one, else the rendered template when
  the variable has a template that is not the empty string, else the static default when
  there is one, else the empty string. For a variable whose template is not the empty
  string, that is the default as the claim words it.
\<close>

theorem C6_non_interactive_default:
  assumes "interactive step = Some False"
  shows "process_variable n config projectDir values step variable w =
           persist n config projectDir variable
             (default_nonempty_template n values variable
               (fst (getExistingValue n (projects_config config) variable projectDir
                       (announce_variable n config values variable w))))
             (snd (getExistingValue n (projects_config config) variable projectDir
                     (announce_variable n config values variable w))) \<and>
         quiet (\<lambda>e. \<not> is_prompt e) w
           (world_of (process_variable n config projectDir values step variable w)) \<and>
         (existingValue = None \<or> truthy_value existingValue \<longrightarrow>
            determine_value step variable
              (computed_default n values variable existingValue) w' =
            Ok (default_nonempty_template n values variable existingValue) w') \<and>
         (template variable \<noteq> Some [] \<longrightarrow>
            default_nonempty_template n values variable existingValue =
              default_of n values variable existingValue)"
  using process_variable_non_interactive [OF assms] assms
  by (simp add: determine_value_def default_computed default_of_nonempty_template)

theorem C6_non_interactive_default_witness:
  "process_variable example_node (example_config [svc]) ''/proj'' example_values
     (example_step None (Some False) [])
     (token\<lparr>template := Some ''{{convexSiteUrl}}/hook'', defaultValue := Some ''unused''\<rparr>)
     (example_world Map.empty) =
   Ok ()
     ((example_world [''/proj/svc.env'' \<mapsto> ''TOKEN=https://a.convex.site/hook''])
         \<lparr>trace := [Log (Details ''The token''), Read ''/proj/svc.env'', Read ''/proj/svc.env'',
         Write ''/proj/svc.env'' ''TOKEN=https://a.convex.site/hook'', Log (SetIn ''TOKEN''),
         Log (SetFile ''proj/svc.env'')]\<rparr>) \<and>
   process_variable example_node (example_config [svc]) ''/proj'' example_values
     (example_step None (Some False) [])
     (token\<lparr>template := Some ''{{convexSiteUrl}}/hook'', defaultValue := Some ''unused''\<rparr>)
     (example_world [''/proj/svc.env'' \<mapsto> ''TOKEN=kept'']) =
   Ok ()
     ((example_world [''/proj/svc.env'' \<mapsto> ''TOKEN=kept''])\<lparr>trace := [Log (Details ''The token''),
         Read ''/proj/svc.env'', Read ''/proj/svc.env'', Write ''/proj/svc.env'' ''TOKEN=kept'',
         Log (SetIn ''TOKEN''), Log (SetFile ''proj/svc.env'')]\<rparr>) \<and>
   default_of example_node example_values
     (token\<lparr>template := Some ''{{convexSiteUrl}}/hook'', defaultValue := Some ''unused''\<rparr>) None =
   Text ''https://a.convex.site/hook''"
proof -
  let ?s = "example_step None (Some False) []"
  let ?c = "example_config [svc]"
  let ?v = "token\<lparr>template := Some ''{{convexSiteUrl}}/hook'', defaultValue := Some ''unused''\<rparr>"
  let ?w0 = "example_world Map.empty"
  let ?w1 = "example_world [''/proj/svc.env'' \<mapsto> ''TOKEN=kept'']"
  have i: "interactive ?s = Some False"
    by (simp add: example_step_def)
  have t: "template ?v \<noteq> Some []"
    by (simp add: token_def)
  have not_index: "\<not> array_index ''TOKEN''"
    by (simp add: array_index_def digit_def)
  have kept: "dotenv_parse ''TOKEN=kept'' = [(''TOKEN'', Text ''kept'')]"
    by code_simp
  have r: "render_template example_node example_values ''{{convexSiteUrl}}/hook'' =
      ''https://a.convex.site/hook''"
    by (simp add: render_template_def example_values_def values_at_def or_text_def present_def
        truthy_value_def to_text_def match_placeholder_def word_char_def)
  have ex0: "getExistingValue example_node (projects_config ?c) ?v ''/proj''
               (announce_variable example_node ?c example_values ?v ?w0) =
             (None, ((example_world Map.empty)\<lparr>trace := [Log (Details ''The token''),
                 Read ''/proj/svc.env'']\<rparr>))"
    by (simp add: example_defs adapter_defs token_def announce_variable_def)
  have ex1: "getExistingValue example_node (projects_config ?c) ?v ''/proj''
               (announce_variable example_node ?c example_values ?v ?w1) =
             (Some (Text ''kept''),
              ((example_world [''/proj/svc.env'' \<mapsto> ''TOKEN=kept''])
                  \<lparr>trace := [Log (Details ''The token''), Read ''/proj/svc.env'']\<rparr>))"
    by (simp add: example_defs adapter_defs token_def announce_variable_def kept)
  have d0: "default_nonempty_template example_node example_values ?v None =
      Text ''https://a.convex.site/hook''"
    and d1: "default_nonempty_template example_node example_values ?v (Some (Text ''kept'')) =
      Text ''kept''"
    by (simp_all add: default_nonempty_template_def token_def r)
  have p0: "persist example_node ?c ''/proj'' ?v (Text ''https://a.convex.site/hook'')
              ((example_world Map.empty)\<lparr>trace := [Log (Details ''The token''),
                  Read ''/proj/svc.env'']\<rparr>) =
            Ok ()
            ((example_world [''/proj/svc.env'' \<mapsto> ''TOKEN=https://a.convex.site/hook''])
                \<lparr>trace := [Log (Details ''The token''), Read ''/proj/svc.env'',
                Read ''/proj/svc.env'',
                Write ''/proj/svc.env'' ''TOKEN=https://a.convex.site/hook'',
                Log (SetIn ''TOKEN''), Log (SetFile ''proj/svc.env'')]\<rparr>)"
    by (simp add: example_defs adapter_defs token_def parse_empty not_index Let_def)
  have p1: "persist example_node ?c ''/proj'' ?v (Text ''kept'')
              ((example_world [''/proj/svc.env'' \<mapsto> ''TOKEN=kept''])
                  \<lparr>trace := [Log (Details ''The token''), Read ''/proj/svc.env'']\<rparr>) =
            Ok ()
            ((example_world [''/proj/svc.env'' \<mapsto> ''TOKEN=kept''])
                \<lparr>trace := [Log (Details ''The token''), Read ''/proj/svc.env'',
                Read ''/proj/svc.env'', Write ''/proj/svc.env'' ''TOKEN=kept'',
                Log (SetIn ''TOKEN''), Log (SetFile ''proj/svc.env'')]\<rparr>)"
    by (simp add: example_defs adapter_defs token_def kept not_index Let_def)
  note a = C6_non_interactive_default [OF i, of example_node ?c "''/proj''"
      example_values ?v ?w0 None ?w0]
  note b = C6_non_interactive_default [OF i, of example_node ?c "''/proj''"
      example_values ?v ?w1 None ?w0]
  from a t have "default_of example_node example_values ?v None =
      default_nonempty_template example_node example_values ?v None"
    by simp
  with a [THEN conjunct1] b [THEN conjunct1] show ?thesis
    unfolding ex0 ex1 fst_conv snd_conv d0 d1 p0 p1 by simp
qed

section \<open>Facts about the walk of a step\<close>

lemma quiet_announce_step: "quiet is_step_line w (announce_step n config index step w)"
proof -
  let ?w1 = "customConsole_log n config (StepTitle (Suc index) (title step)) w"
  let ?w2 = "case nonempty (description step) of
               Some d \<Rightarrow> customConsole_log n config (Description d) ?w1
             | None \<Rightarrow> ?w1"
  let ?w3 = "customConsole_log n config (Instructions (instructions step)) ?w2"
  have 1: "quiet is_step_line w ?w1"
    by (simp add: quiet_customConsole_log)
  have 2: "quiet is_step_line ?w1 ?w2"
    by (cases "nonempty (description step)") (simp_all add: quiet_refl quiet_customConsole_log)
  have 3: "quiet is_step_line ?w2 ?w3"
    by (simp add: quiet_customConsole_log)
  have 4: "quiet is_step_line ?w3
      (customConsole_log n config Blank
         (foldl (\<lambda>w instruction. customConsole_log n config (Additional instruction) w)
            (customConsole_log n config AdditionalHeader ?w3) extra))" for extra
  proof -
    let ?h = "customConsole_log n config AdditionalHeader ?w3"
    let ?f = "foldl (\<lambda>w instruction. customConsole_log n config (Additional instruction) w) ?h extra"
    have a: "quiet is_step_line ?w3 ?h"
      by (simp add: quiet_customConsole_log)
    have b: "quiet is_step_line ?h ?f"
      by (rule quiet_foldl_log) simp
    have c: "quiet is_step_line ?f (customConsole_log n config Blank ?f)"
      by (simp add: quiet_customConsole_log)
    from quiet_trans [OF a quiet_trans [OF b c]] show ?thesis .
  qed
  from quiet_trans [OF 1 quiet_trans [OF 2 3]] quiet_trans [OF 1 quiet_trans [OF 2 quiet_trans [OF 3 4]]]
  show ?thesis
    by (cases "additionalInstructions step") (simp_all add: announce_step_def Let_def)
qed

lemma announce_step_files [simp]:
  "files (announce_step n config index step w) = files w"
  "write_fails (announce_step n config index step w) = write_fails w"
  by (simp_all add: announce_step_def Let_def
      foldl_log_files [of n config Additional] split: option.splits)

lemma not_confirm_kinds:
  "is_access e \<Longrightarrow> e \<noteq> Confirm" "is_set_report e \<Longrightarrow> e \<noteq> Confirm"
  "is_variable_line e \<Longrightarrow> e \<noteq> Confirm" "is_step_line e \<Longrightarrow> e \<noteq> Confirm"
  by auto

lemma not_prompt_not_confirm: "\<not> is_prompt e \<Longrightarrow> e \<noteq> Confirm"
  by auto

lemma extends_determine_value:
  "extends (\<lambda>e. e \<noteq> Confirm) w (world_of (determine_value step variable dflt w))"
proof (cases "interactive step = Some False")
  case True
  then show ?thesis
    by (simp add: determine_value_def extends_refl)
next
  case False
  have "extends (\<lambda>e. e \<noteq> Confirm) w
      (emit (Input (name variable) (required variable = Some False) dflt) w)"
    by (simp add: extends_emit)
  then have "extends (\<lambda>e. e \<noteq> Confirm) w
      ((emit (Input (name variable) (required variable = Some False) dflt) w)\<lparr>typed := t\<rparr>)" for t
    by (simp add: extends_def since_def)
  with False \<open>extends (\<lambda>e. e \<noteq> Confirm) w
      (emit (Input (name variable) (required variable = Some False) dflt) w)\<close>
  show ?thesis
    by (simp add: determine_value_def ask_input_def split: list.splits)
qed

lemma extends_process_variable:
  "extends (\<lambda>e. e \<noteq> Confirm) w
     (world_of (process_variable n config projectDir values step variable w))"
proof -
  let ?a = "announce_variable n config values variable w"
  let ?ex = "getExistingValue n (projects_config config) variable projectDir ?a"
  let ?d = "determine_value step variable (computed_default n values variable (fst ?ex))
              (snd ?ex)"
  have 1: "extends (\<lambda>e. e \<noteq> Confirm) w ?a"
    by (rule quiet_extends [OF quiet_mono [OF quiet_announce_variable]]) (rule not_confirm_kinds)
  have 2: "extends (\<lambda>e. e \<noteq> Confirm) ?a (snd ?ex)"
    by (rule quiet_extends [OF quiet_mono [OF quiet_getExistingValue]]) (rule not_confirm_kinds)
  have 3: "extends (\<lambda>e. e \<noteq> Confirm) (snd ?ex) (world_of ?d)"
    by (rule extends_determine_value)
  have 4: "extends (\<lambda>e. e \<noteq> Confirm) w'
      (world_of (persist n config projectDir variable val w'))" for val w'
    by (rule quiet_extends [OF quiet_mono [OF quiet_persist]]) (rule not_prompt_not_confirm)
  note 13 = extends_trans [OF 1 extends_trans [OF 2 3]]
  show ?thesis
  proof (cases ?d)
    case (Stop f w')
    with 13 show ?thesis
      by (cases ?ex) (simp add: process_variable_def)
  next
    case (Ok val w')
    with extends_trans [OF 13 4 [of "world_of ?d" val]] show ?thesis
      by (cases ?ex) (simp add: process_variable_def)
  qed
qed

lemma extends_process_variables:
  "extends (\<lambda>e. e \<noteq> Confirm) w
     (world_of (process_variables n config projectDir values step vs w))"
proof (induction vs arbitrary: w)
  case Nil
  show ?case by (simp add: extends_refl)
next
  case (Cons v vs)
  show ?case
  proof (cases "process_variable n config projectDir values step v w")
    case (Stop f w')
    with extends_process_variable [of w n config projectDir "values" step v] show ?thesis
      by simp
  next
    case (Ok u w')
    with extends_process_variable [of w n config projectDir "values" step v]
    have "extends (\<lambda>e. e \<noteq> Confirm) w w'"
      by simp
    from extends_trans [OF this Cons [of w']] Ok show ?thesis
      by simp
  qed
qed

lemma extends_run_variables:
  "extends (\<lambda>e. e \<noteq> Confirm) w (world_of (run_variables n config projectDir values step w))"
proof (cases "process_variables n config projectDir values step (variables step) w")
  case (Stop f w')
  with extends_process_variables [of w n config projectDir "values" step "variables step"]
  show ?thesis
    by (simp add: run_variables_def)
next
  case (Ok u w')
  with extends_process_variables [of w n config projectDir "values" step "variables step"]
  have "extends (\<lambda>e. e \<noteq> Confirm) w w'"
    by simp
  moreover have "extends (\<lambda>e. e \<noteq> Confirm) w' (customConsole_log n config StepCompleted w')"
    by (rule quiet_extends [OF quiet_customConsole_log]) simp
  ultimately show ?thesis
    using Ok by (simp add: run_variables_def extends_trans)
qed


lemma process_variable_stop:
  assumes "interactive step = Some False"
    and "process_variable n config projectDir values step variable w = Stop f w'"
  shows "f = Thrown \<and> (\<exists>p. write_fails w p)"
proof -
  let ?ex = "getExistingValue n (projects_config config) variable projectDir
               (announce_variable n config values variable w)"
  from assms(2) have "persist n config projectDir variable
      (default_nonempty_template n values variable (fst ?ex)) (snd ?ex) = Stop f w'"
    unfolding process_variable_non_interactive(1) [OF assms(1)] .
  from persist_stop [OF this] have "f = Thrown" and "\<exists>p. write_fails (snd ?ex) p"
    by auto
  then show ?thesis
    by simp
qed

lemma process_variable_write_fails:
  assumes "interactive step = Some False"
  shows "write_fails (world_of (process_variable n config projectDir values step variable w)) =
           write_fails w"
  unfolding process_variable_non_interactive(1) [OF assms] by simp

lemma process_variables_non_interactive:
  assumes "interactive step = Some False"
  shows "quiet (\<lambda>e. \<not> is_prompt e) w
           (world_of (process_variables n config projectDir values step vs w)) \<and>
         (\<forall>f w'. process_variables n config projectDir values step vs w = Stop f w' \<longrightarrow>
            f = Thrown \<and> (\<exists>p. write_fails w p))"
proof (induction vs arbitrary: w)
  case Nil
  show ?case by (simp add: quiet_refl)
next
  case (Cons v vs)
  let ?pv = "process_variable n config projectDir values step v w"
  have q: "quiet (\<lambda>e. \<not> is_prompt e) w (world_of ?pv)"
    by (rule process_variable_non_interactive(2) [OF assms])
  show ?case
  proof (cases ?pv)
    case (Stop f w1)
    with q process_variable_stop [OF assms Stop] show ?thesis
      by simp
  next
    case (Ok u w1)
    with q have q1: "quiet (\<lambda>e. \<not> is_prompt e) w w1"
      by simp
    from Ok process_variable_write_fails [OF assms, of n config projectDir "values" v w]
    have "write_fails w1 = write_fails w"
      by simp
    with Cons [of w1] Ok quiet_trans [OF q1] show ?thesis
      by simp
  qed
qed

lemma run_variables_non_interactive:
  assumes "interactive step = Some False"
  shows "quiet (\<lambda>e. \<not> is_prompt e) w
           (world_of (run_variables n config projectDir values step w)) \<and>
         (\<forall>f w'. run_variables n config projectDir values step w = Stop f w' \<longrightarrow>
            f = Thrown \<and> (\<exists>p. write_fails w p))"
proof (cases "process_variables n config projectDir values step (variables step) w")
  case (Stop f w1)
  with process_variables_non_interactive [OF assms, of w n config projectDir "values"
      "variables step"]
  show ?thesis
    by (simp add: run_variables_def)
next
  case (Ok u w1)
  with process_variables_non_interactive [OF assms, of w n config projectDir "values"
      "variables step"]
  have "quiet (\<lambda>e. \<not> is_prompt e) w w1"
    by simp
  moreover have "quiet (\<lambda>e. \<not> is_prompt e) w1 (customConsole_log n config StepCompleted w1)"
    by (rule quiet_customConsole_log) simp
  ultimately show ?thesis
    using Ok by (simp add: run_variables_def quiet_trans)
qed

section \<open>The gate of an optional step\<close>

lemma confirm_stays:
  assumes "quiet P w a" and "trace c = trace a @ [Confirm]" and "extends Q c w'"
  shows "Confirm \<in> set (since w w')"
proof -
  from quietD(1) [OF assms(1)] assms(2) extendsD(1) [OF assms(3)]
  have "trace w' = trace w @ (since w a @ [Confirm] @ since c w')"
    by simp
  then have "since w w' = since w a @ [Confirm] @ since c w'"
    by (rule since_append)
  then show ?thesis
    by simp
qed

lemma process_step_gate:
  assumes "required_step step = Some False" and "interactive step \<noteq> Some False"
  shows "process_step n config projectDir values index step w =
           (case ask_confirm (announce_step n config index step w) of
              Stop f w' \<Rightarrow> Stop f w'
            | Ok setupStep w' \<Rightarrow>
                if \<not> setupStep
                then Ok () (customConsole_log n config (SkippingStep (title step)) w')
                else run_variables n config projectDir values step w')"
  using assms by (simp add: process_step_def)

lemma process_step_no_gate:
  assumes "\<not> (required_step step = Some False \<and> interactive step \<noteq> Some False)"
  shows "process_step n config projectDir values index step w =
           run_variables n config projectDir values step (announce_step n config index step w)"
  using assms by (auto simp: process_step_def)

lemma process_step_confirm:
  "Confirm \<in> set (since w (world_of (process_step n config projectDir values index step w))) \<longleftrightarrow>
   required_step step = Some False \<and> interactive step \<noteq> Some False"
proof (cases "required_step step = Some False \<and> interactive step \<noteq> Some False")
  case False
  let ?a = "announce_step n config index step w"
  let ?r = "run_variables n config projectDir values step ?a"
  have "extends (\<lambda>e. e \<noteq> Confirm) w ?a"
    by (rule quiet_extends [OF quiet_mono [OF quiet_announce_step]]) (rule not_confirm_kinds)
  from extends_trans [OF this extends_run_variables]
  have "extends (\<lambda>e. e \<noteq> Confirm) w (world_of ?r)" .
  from extendsD(2) [OF this] have "Confirm \<notin> set (since w (world_of ?r))"
    by (auto simp: list_all_iff)
  with False show ?thesis
    by (simp add: process_step_no_gate)
next
  case True
  let ?a = "announce_step n config index step w"
  let ?p = "process_step n config projectDir values index step w"
  have q: "quiet is_step_line w ?a"
    by (rule quiet_announce_step)
  have "Confirm \<in> set (since w (world_of ?p))"
  proof (cases "yes_no ?a")
    case Nil
    with True have p: "?p = Stop Interrupted (emit Confirm ?a)"
      by (simp add: process_step_gate ask_confirm_def)
    have "Confirm \<in> set (since w (emit Confirm ?a))"
      by (rule confirm_stays [OF q _ extends_refl]) simp
    with p show ?thesis
      by simp
  next
    case (Cons answer answers)
    let ?c = "(emit Confirm ?a)\<lparr>yes_no := answers\<rparr>"
    have t: "trace ?c = trace ?a @ [Confirm]"
      by simp
    show ?thesis
    proof (cases answer)
      case True
      with Cons \<open>required_step step = Some False \<and> interactive step \<noteq> Some False\<close>
      have p: "?p = run_variables n config projectDir values step ?c"
        by (simp add: process_step_gate ask_confirm_def)
      show ?thesis
        unfolding p by (rule confirm_stays [OF q t extends_run_variables])
    next
      case False
      with Cons \<open>required_step step = Some False \<and> interactive step \<noteq> Some False\<close>
      have p: "?p = Ok () (customConsole_log n config (SkippingStep (title step)) ?c)"
        by (simp add: process_step_gate ask_confirm_def)
      have "extends is_step_line ?c (customConsole_log n config (SkippingStep (title step)) ?c)"
        by (rule quiet_extends [OF quiet_customConsole_log]) simp
      from confirm_stays [OF q t this] p show ?thesis
        by simp
    qed
  qed
  with True show ?thesis
    by simp
qed

lemma process_step_declined:
  assumes "required_step step = Some False" and "interactive step \<noteq> Some False"
    and "yes_no w = False # answers"
  shows "process_step n config projectDir values index step w =
           Ok () (customConsole_log n config (SkippingStep (title step))
                    ((emit Confirm (announce_step n config index step w))\<lparr>yes_no := answers\<rparr>))"
    and "list_all (\<lambda>e. is_step_line e \<or> e = Confirm)
           (since w (world_of (process_step n config projectDir values index step w)))"
proof -
  let ?a = "announce_step n config index step w"
  let ?c = "(emit Confirm ?a)\<lparr>yes_no := answers\<rparr>"
  let ?s = "customConsole_log n config (SkippingStep (title step)) ?c"
  have q: "quiet is_step_line w ?a"
    by (rule quiet_announce_step)
  with assms(3) have "yes_no ?a = False # answers"
    by (simp add: quiet_def)
  with assms(1,2) show p: "process_step n config projectDir values index step w = Ok () ?s"
    by (simp add: process_step_gate ask_confirm_def)
  from quietD(1) [OF q]
  have "trace ?s = trace w @ (since w ?a @ [Confirm] @
      (if ignored n config (SkippingStep (title step)) then [] else [Log (SkippingStep (title step))]))"
    by simp
  then have "since w ?s = since w ?a @ [Confirm] @
      (if ignored n config (SkippingStep (title step)) then [] else [Log (SkippingStep (title step))])"
    by (rule since_append)
  with quietD(2) [OF q]
  show "list_all (\<lambda>e. is_step_line e \<or> e = Confirm)
      (since w (world_of (process_step n config projectDir values index step w)))"
    unfolding p by (auto simp: list_all_iff)
qed





end
